theory Spec2Isabelle
  imports Main "HOL-Library.Word"
begin

unbundle bit_operations_syntax

section \<open>Data model of \<open>BitSet<TElement, TToken>\<close>\<close>

text \<open>
  The class template of \<^verbatim>\<open>src/BitSet.h\<close>. \<open>TToken\<close> is the unsigned storage word
  \<open>'w word\<close>, \<open>TElement\<close> the unsigned element type \<open>'e word\<close>; the C++ type
  \<^verbatim>\<open>unsigned\<close> of the fields \<open>Tokens\<close> and \<open>MaxElements\<close> is \<open>32 word\<close>, so its
  arithmetic wraps modulo \<open>2 ^ 32\<close> as in the source (\<^verbatim>\<open>int\<close> and \<^verbatim>\<open>unsigned\<close> have 32
  bits, \<^verbatim>\<open>unsigned long\<close> has 64). The buffer behind the pointer
  \<open>TokenArray\<close> is the list of the tokens it addresses. The \<^verbatim>\<open>assert\<close>s of the source
  are branches of the model: a failed assertion is the value \<open>Inl AssertionFailed\<close>.
\<close>

datatype error = AssertionFailed

record (overloaded) 'w BitSet =
  TokenArray :: "'w word list"
  LastTokenMask :: "'w word"
  Tokens :: "32 word"
  MaxElements :: "32 word"

text \<open>\<^verbatim>\<open>static const unsigned int ElementsPerToken = sizeof(TToken)*8\<close>\<close>

definition ElementsPerToken :: "'w::len itself \<Rightarrow> 32 word" where
  "ElementsPerToken _ = of_nat LENGTH('w)"

text \<open>
  \<^verbatim>\<open>ReqSize(r) = sizeof(TToken)*std::max(r, 16u)\<close> is a number of bytes; the model
  measures a block in tokens, so the factor \<open>sizeof(TToken)\<close> is left out.
\<close>

definition ReqSize :: "32 word \<Rightarrow> nat" where
  "ReqSize r = unat (max r 16)"

text \<open>
  \<^verbatim>\<open>malloc\<close> returns a block whose contents are not initialised: the parameter \<open>mem\<close>
  gives the token found at each index of the fresh block. \<^verbatim>\<open>realloc\<close> keeps the old
  contents up to the smaller of the two sizes. \<^verbatim>\<open>memcpy\<close> overwrites the first \<open>n\<close>
  tokens of the destination. Allocation is taken to succeed (the source does not test the
  pointer it gets).
\<close>

definition malloc :: "nat \<Rightarrow> (nat \<Rightarrow> 'w word) \<Rightarrow> 'w::len word list" where
  "malloc n mem = map mem [0..<n]"

definition realloc :: "'w::len word list \<Rightarrow> nat \<Rightarrow> (nat \<Rightarrow> 'w word) \<Rightarrow> 'w word list" where
  "realloc old n mem = map (\<lambda>i. if i < length old then old ! i else mem i) [0..<n]"

definition memcpy :: "'w::len word list \<Rightarrow> 'w word list \<Rightarrow> nat \<Rightarrow> 'w word list" where
  "memcpy dst src n = take n src @ drop n dst"

subsection \<open>The bit primitives \<open>BitUtil<TToken, false>\<close>\<close>

text \<open>
  Modelled from the spec: the headers \<^verbatim>\<open>BitUtil_uint32.h\<close> and \<^verbatim>\<open>BitUtil_uint64.h\<close> are
  not among the sources. The spec gives their contract: \<open>TestBit(word, pos)\<close> reads one bit,
  \<open>SetBit\<close> and \<open>ClearBit\<close> set and clear one bit, \<open>ClearAllBits(wordArray, count)\<close> zeroes
  \<open>count\<close> words, \<open>OrVector(dst, a, b, count)\<close> and \<open>AndVector(dst, a, b, count)\<close> are the
  element-wise OR and AND over \<open>count\<close>-word arrays, and the lowest-set-bit scan
  (\<open>BitScanForward\<close> in the source) locates the lowest-order set bit or reports that a
  zero word has none.
\<close>

definition TestBit :: "'w::len word \<Rightarrow> nat \<Rightarrow> bool" where
  "TestBit w pos = bit w pos"

definition SetBit :: "'w::len word \<Rightarrow> nat \<Rightarrow> 'w word" where
  "SetBit w pos = set_bit pos w"

definition ClearBit :: "'w::len word \<Rightarrow> nat \<Rightarrow> 'w word" where
  "ClearBit w pos = unset_bit pos w"

definition ClearAllBits :: "'w::len word list \<Rightarrow> nat \<Rightarrow> 'w word list" where
  "ClearAllBits arr count = fold (\<lambda>i a. a[i := 0]) [0..<count] arr"

definition OrVector ::
  "'w::len word list \<Rightarrow> 'w word list \<Rightarrow> 'w word list \<Rightarrow> nat \<Rightarrow> 'w word list" where
  "OrVector dst a b count = fold (\<lambda>i d. d[i := (a ! i) OR (b ! i)]) [0..<count] dst"

definition AndVector ::
  "'w::len word list \<Rightarrow> 'w word list \<Rightarrow> 'w word list \<Rightarrow> nat \<Rightarrow> 'w word list" where
  "AndVector dst a b count = fold (\<lambda>i d. d[i := (a ! i) AND (b ! i)]) [0..<count] dst"

definition BitScanForward :: "'w::len word \<Rightarrow> nat option" where
  "BitScanForward w = find (bit w) [0..<LENGTH('w)]"

subsection \<open>Sequencing of operations that may fail an assertion\<close>

definition bindE :: "error + 'a \<Rightarrow> ('a \<Rightarrow> error + 'b) \<Rightarrow> error + 'b" where
  "bindE r f = (case r of Inl e \<Rightarrow> Inl e | Inr x \<Rightarrow> f x)"

section \<open>The operations\<close>

text \<open>\<^verbatim>\<open>void Clear()\<close>\<close>

definition Clear :: "'w::len BitSet \<Rightarrow> 'w BitSet" where
  "Clear s = s\<lparr>TokenArray := ClearAllBits (TokenArray s) (unat (Tokens s))\<rparr>"

text \<open>
  \<^verbatim>\<open>BitSet(unsigned maxElements)\<close>. The loop that builds \<open>LastTokenMask\<close> sets the bits
  \<open>0 .. offset - 1\<close> one by one.
\<close>

definition BitSet_ctor :: "32 word \<Rightarrow> (nat \<Rightarrow> 'w word) \<Rightarrow> 'w::len BitSet" where
  "BitSet_ctor maxElements mem =
    (let tokens0 = maxElements div ElementsPerToken TYPE('w);
         tokens = (if tokens0 * ElementsPerToken TYPE('w) \<noteq> maxElements
                   then tokens0 + 1 else tokens0);
         arr = malloc (ReqSize tokens) mem;
         offset = maxElements mod ElementsPerToken TYPE('w);
         msk = fold (\<lambda>i m. SetBit m i) [0..<unat offset] 0
     in Clear \<lparr>TokenArray = arr, LastTokenMask = msk, Tokens = tokens,
               MaxElements = maxElements\<rparr>)"

text \<open>\<^verbatim>\<open>void CopyFrom(const BitSet& copyFrom)\<close>\<close>

definition CopyFrom :: "'w::len BitSet \<Rightarrow> 'w BitSet \<Rightarrow> error + 'w BitSet" where
  "CopyFrom s copyFrom =
    (if Tokens copyFrom \<noteq> Tokens s then Inl AssertionFailed
     else if LastTokenMask copyFrom \<noteq> LastTokenMask s then Inl AssertionFailed
     else if MaxElements copyFrom \<noteq> MaxElements s then Inl AssertionFailed
     else Inr (s\<lparr>TokenArray :=
                  memcpy (TokenArray s) (TokenArray copyFrom) (unat (Tokens s))\<rparr>))"

text \<open>\<^verbatim>\<open>BitSet(const BitSet& copyFrom)\<close>, the copy constructor.\<close>

definition BitSet_copy :: "'w::len BitSet \<Rightarrow> (nat \<Rightarrow> 'w word) \<Rightarrow> error + 'w BitSet" where
  "BitSet_copy copyFrom mem =
     CopyFrom \<lparr>TokenArray = malloc (ReqSize (Tokens copyFrom)) mem,
               LastTokenMask = LastTokenMask copyFrom,
               Tokens = Tokens copyFrom,
               MaxElements = MaxElements copyFrom\<rparr> copyFrom"

text \<open>
  \<^verbatim>\<open>BitSet(BitSet&& rhs)\<close>, the move constructor: the new instance takes the buffer and
  the source is left with the null pointer, which addresses no token (the empty list).
  The result is the pair of the new instance and the source after the move. The move
  assignment \<^verbatim>\<open>operator= (const BitSet&& rhs)\<close> of the source compares \<open>rhs\<close> with the
  pointer \<open>this\<close> and writes to its \<^verbatim>\<open>const\<close> operand, so it cannot be instantiated; it
  has no model.
\<close>

definition BitSet_move :: "'w::len BitSet \<Rightarrow> 'w BitSet \<times> 'w BitSet" where
  "BitSet_move rhs =
     (\<lparr>TokenArray = TokenArray rhs, LastTokenMask = LastTokenMask rhs,
       Tokens = Tokens rhs, MaxElements = MaxElements rhs\<rparr>,
      rhs\<lparr>TokenArray := []\<rparr>)"

text \<open>\<^verbatim>\<open>BitSet& operator= (const BitSet& rh)\<close>, copy assignment.\<close>

definition operator_assign ::
  "'w::len BitSet \<Rightarrow> 'w BitSet \<Rightarrow> (nat \<Rightarrow> 'w word) \<Rightarrow> error + 'w BitSet" where
  "operator_assign s rh mem =
     CopyFrom
       (if Tokens rh \<noteq> Tokens s
        then \<lparr>TokenArray = realloc (TokenArray s) (ReqSize (Tokens rh)) mem,
              LastTokenMask = LastTokenMask rh,
              Tokens = Tokens rh,
              MaxElements = MaxElements rh\<rparr>
        else s)
       rh"

text \<open>
  \<^verbatim>\<open>Contains\<close>, \<^verbatim>\<open>Add\<close> and \<^verbatim>\<open>Remove\<close>. The product \<open>Tokens*ElementsPerToken\<close> of the
  first assertion is a product of two \<^verbatim>\<open>unsigned\<close> values and wraps; the comparison with
  the element and the division are between unsigned values and are written on \<open>unat\<close>.
\<close>

definition Contains :: "'w::len BitSet \<Rightarrow> 'e::len word \<Rightarrow> error + bool" where
  "Contains s element =
    (if \<not> unat element < unat (Tokens s * ElementsPerToken TYPE('w)) then Inl AssertionFailed
     else if \<not> unat element < unat (MaxElements s) then Inl AssertionFailed
     else let token = unat element div unat (ElementsPerToken TYPE('w));
              offset = unat element mod unat (ElementsPerToken TYPE('w))
          in Inr (TestBit (TokenArray s ! token) offset))"

definition Add :: "'w::len BitSet \<Rightarrow> 'e::len word \<Rightarrow> error + 'w BitSet" where
  "Add s element =
    (if \<not> unat element < unat (Tokens s * ElementsPerToken TYPE('w)) then Inl AssertionFailed
     else if \<not> unat element < unat (MaxElements s) then Inl AssertionFailed
     else let token = unat element div unat (ElementsPerToken TYPE('w));
              offset = unat element mod unat (ElementsPerToken TYPE('w))
          in Inr (s\<lparr>TokenArray := (TokenArray s)[token := SetBit (TokenArray s ! token) offset]\<rparr>))"

definition Remove :: "'w::len BitSet \<Rightarrow> 'e::len word \<Rightarrow> error + 'w BitSet" where
  "Remove s element =
    (if \<not> unat element < unat (Tokens s * ElementsPerToken TYPE('w)) then Inl AssertionFailed
     else if \<not> unat element < unat (MaxElements s) then Inl AssertionFailed
     else let token = unat element div unat (ElementsPerToken TYPE('w));
              offset = unat element mod unat (ElementsPerToken TYPE('w))
          in Inr (s\<lparr>TokenArray := (TokenArray s)[token := ClearBit (TokenArray s ! token) offset]\<rparr>))"

text \<open>\<^verbatim>\<open>bool IsEmpty() const\<close>: the loop over \<open>s = 0 .. Tokens - 1\<close> with its early return.\<close>

primrec IsEmpty_loop :: "'w::len word list \<Rightarrow> nat list \<Rightarrow> bool" where
  "IsEmpty_loop arr [] = True"
| "IsEmpty_loop arr (i # is) = (if arr ! i \<noteq> 0 then False else IsEmpty_loop arr is)"

definition IsEmpty :: "'w::len BitSet \<Rightarrow> bool" where
  "IsEmpty s = IsEmpty_loop (TokenArray s) [0..<unat (Tokens s)]"

definition GetMaxElements :: "'w::len BitSet \<Rightarrow> 32 word" where
  "GetMaxElements s = MaxElements s"

text \<open>\<^verbatim>\<open>UnionWith\<close> and \<^verbatim>\<open>IntersectWith\<close>: destination and first operand are the own buffer.\<close>

definition UnionWith :: "'w::len BitSet \<Rightarrow> 'w BitSet \<Rightarrow> error + 'w BitSet" where
  "UnionWith s c =
    (if Tokens c \<noteq> Tokens s then Inl AssertionFailed
     else Inr (s\<lparr>TokenArray :=
                  OrVector (TokenArray s) (TokenArray s) (TokenArray c) (unat (Tokens s))\<rparr>))"

definition IntersectWith :: "'w::len BitSet \<Rightarrow> 'w BitSet \<Rightarrow> error + 'w BitSet" where
  "IntersectWith s c =
    (if Tokens c \<noteq> Tokens s then Inl AssertionFailed
     else Inr (s\<lparr>TokenArray :=
                  AndVector (TokenArray s) (TokenArray s) (TokenArray c) (unat (Tokens s))\<rparr>))"

text \<open>\<^verbatim>\<open>void Complement()\<close>\<close>

definition Complement :: "'w::len BitSet \<Rightarrow> 'w BitSet" where
  "Complement s =
     s\<lparr>TokenArray := fold (\<lambda>i a. a[i := NOT (a ! i)]) [0..<unat (Tokens s)] (TokenArray s)\<rparr>"

text \<open>
  \<^verbatim>\<open>void ForEachMember(std::function< bool(TElement) > cb) const\<close>. The visitor is a
  function of the element and of the state it captures, returning the continue signal and
  its new state. \<open>scan_token\<close> is the inner \<^verbatim>\<open>while\<close> loop on the local copy \<open>token\<close>;
  \<open>offset\<close> holds the 32 bits of the \<^verbatim>\<open>int\<close> of the source and \<open>idx\<close> is an
  \<^verbatim>\<open>unsigned long\<close> (64 bits), so \<open>idx + offset\<close> is a 64-bit sum with \<open>offset\<close>
  sign-extended (\<open>scast\<close>), then converted to \<open>TElement\<close> for the call.
\<close>

function scan_token ::
  "'w::len word \<Rightarrow> 32 word \<Rightarrow> ('e::len word \<Rightarrow> 'a \<Rightarrow> bool \<times> 'a) \<Rightarrow> 'a \<Rightarrow> bool \<times> 'a" where
  "scan_token token offset cb a =
     (case BitScanForward token of
        None \<Rightarrow> (True, a)
      | Some idx \<Rightarrow>
          (let st = (of_nat idx :: 64 word) + scast offset;
               r = cb (ucast st) a
           in if \<not> fst r then (False, snd r)
              else scan_token (ClearBit token idx) offset cb (snd r)))"
  by pat_completeness auto

termination scan_token
  apply (relation "measure (\<lambda>(token, offset, cb, a). unat token)")
   apply simp
  subgoal for token offset cb a idx st r
  proof -
    assume "BitScanForward token = Some idx"
    then have b: "bit token idx"
      by (auto simp: BitScanForward_def find_Some_iff)
    have "ClearBit token idx \<le> token"
      by (simp add: ClearBit_def unset_bit_def word_and_le2)
    moreover have "ClearBit token idx \<noteq> token"
    proof
      assume "ClearBit token idx = token"
      then have "bit (ClearBit token idx) idx" using b by simp
      then show False by (simp add: ClearBit_def bit_unset_bit_iff)
    qed
    ultimately have "ClearBit token idx < token" by simp
    then show ?thesis by (simp add: word_less_nat_alt)
  qed
  done

text \<open>
  The outer \<^verbatim>\<open>for\<close> loop over the token indices \<open>i = 0 .. Tokens - 1\<close>. The object is
  passed through the loop and returned with the visitor's state: the method is
  \<^verbatim>\<open>const\<close> and works on the local \<open>token\<close>.
\<close>

primrec ForEachMember_loop ::
  "'w::len BitSet \<Rightarrow> ('e::len word \<Rightarrow> 'a \<Rightarrow> bool \<times> 'a) \<Rightarrow> nat list \<Rightarrow> 32 word \<Rightarrow> 'a
     \<Rightarrow> 'w BitSet \<times> 'a" where
  "ForEachMember_loop s cb [] offset a = (s, a)"
| "ForEachMember_loop s cb (i # is) offset a =
     (let token = TokenArray s ! i;
          token = (if (of_nat i :: 32 word) = Tokens s - 1
                   then token AND LastTokenMask s else token);
          r = scan_token token offset cb a
      in if \<not> fst r then (s, snd r)
         else ForEachMember_loop s cb is (offset + ElementsPerToken TYPE('w)) (snd r))"

definition ForEachMember ::
  "'w::len BitSet \<Rightarrow> ('e::len word \<Rightarrow> 'a \<Rightarrow> bool \<times> 'a) \<Rightarrow> 'a \<Rightarrow> 'w BitSet \<times> 'a" where
  "ForEachMember s cb a = ForEachMember_loop s cb [0..<unat (Tokens s)] 0 a"

section \<open>Notions used by the properties\<close>

text \<open>The buffer of an instance in use holds at least \<open>Tokens\<close> tokens.\<close>

definition allocated :: "'w::len BitSet \<Rightarrow> bool" where
  "allocated s \<longleftrightarrow> unat (Tokens s) \<le> length (TokenArray s)"

text \<open>Universe-compatible instances agree on word count, universe size and tail mask.\<close>

definition universe_compatible :: "'w::len BitSet \<Rightarrow> 'w BitSet \<Rightarrow> bool" where
  "universe_compatible a b \<longleftrightarrow>
     Tokens a = Tokens b \<and> MaxElements a = MaxElements b \<and> LastTokenMask a = LastTokenMask b"

text \<open>\<open>wordCount = ceil (universeSize / bitsPerWord)\<close>\<close>

definition word_count_ok :: "'w::len BitSet \<Rightarrow> bool" where
  "word_count_ok s \<longleftrightarrow>
     unat (Tokens s) = (unat (MaxElements s) + LENGTH('w) - 1) div LENGTH('w)"

text \<open>Two visitors: one records every element and goes on, one records and stops.\<close>

definition visit_all :: "'e word \<Rightarrow> 'e word list \<Rightarrow> bool \<times> 'e word list" where
  "visit_all e acc = (True, acc @ [e])"

definition visit_stop :: "'e word \<Rightarrow> 'e word list \<Rightarrow> bool \<times> 'e word list" where
  "visit_stop e acc = (False, acc @ [e])"

text \<open>
  What an enumeration is to do: call the visitor on the elements of a list in order, until
  it signals stop. \<open>member s n\<close> reads the bit of element \<open>n\<close> as \<open>Contains\<close> does, and
  \<open>members s\<close> lists the members in ascending order. \<open>tail_mask_ok\<close> says that the tail mask
  has the bits below \<open>universeSize mod bitsPerWord\<close>, as the constructor sets it.
  \<open>token_elements s i\<close> are the elements that the inner loop of \<open>ForEachMember\<close> passes to
  the visitor for token \<open>i\<close>.
\<close>

primrec visit_each :: "('e \<Rightarrow> 'a \<Rightarrow> bool \<times> 'a) \<Rightarrow> 'e list \<Rightarrow> 'a \<Rightarrow> bool \<times> 'a" where
  "visit_each cb [] a = (True, a)"
| "visit_each cb (x # xs) a =
     (let r = cb x a in if \<not> fst r then (False, snd r) else visit_each cb xs (snd r))"

definition member :: "'w::len BitSet \<Rightarrow> nat \<Rightarrow> bool" where
  "member s n = TestBit (TokenArray s ! (n div LENGTH('w))) (n mod LENGTH('w))"

definition members :: "'w::len BitSet \<Rightarrow> nat list" where
  "members s = filter (member s) [0..<unat (MaxElements s)]"

definition tail_mask_ok :: "'w::len BitSet \<Rightarrow> bool" where
  "tail_mask_ok s \<longleftrightarrow> LastTokenMask s = mask (unat (MaxElements s) mod LENGTH('w))"

definition token_elements :: "'w::len BitSet \<Rightarrow> nat \<Rightarrow> 'e::len word list" where
  "token_elements s i =
     map (\<lambda>idx. ucast ((of_nat idx :: 64 word) + scast (of_nat i * ElementsPerToken TYPE('w))))
       (filter (bit (if (of_nat i :: 32 word) = Tokens s - 1
                     then TokenArray s ! i AND LastTokenMask s else TokenArray s ! i))
          [0..<LENGTH('w)])"

section \<open>A concrete instance\<close>

text \<open>
  The scenario of the specification: universe size 70 over 32-bit tokens, built by the
  constructor on a block of uninitialised memory and four calls of \<open>Add\<close>.
\<close>

definition junk :: "nat \<Rightarrow> 32 word" where
  "junk i = 0xDEADBEEF"

definition set70 :: "error + 32 BitSet" where
  "set70 =
     bindE (Add (BitSet_ctor 70 junk) (0 :: 32 word)) (\<lambda>s.
     bindE (Add s (31 :: 32 word)) (\<lambda>s.
     bindE (Add s (32 :: 32 word)) (\<lambda>s. Add s (69 :: 32 word))))"

definition example70 :: "32 BitSet" where
  "example70 = \<lparr>TokenArray = [0x80000001, 1, 32] @ replicate 13 0xDEADBEEF,
                 LastTokenMask = 63, Tokens = 3, MaxElements = 70\<rparr>"

text \<open>
  Universes that are an exact multiple of the token width (32 and 64 over 32-bit tokens),
  after \<open>Add 0\<close> and after \<open>Add 5; Add 40\<close>; and the second scenario of the specification:
  universe size 10 with \<open>A = {1,2,3}\<close>, \<open>B = {3,4,5}\<close>, and a third set \<open>C = {5,9}\<close>.
\<close>

definition example32 :: "32 BitSet" where
  "example32 = \<lparr>TokenArray = [1] @ replicate 15 0xDEADBEEF,
                 LastTokenMask = 0, Tokens = 1, MaxElements = 32\<rparr>"

definition example64 :: "32 BitSet" where
  "example64 = \<lparr>TokenArray = [32, 256] @ replicate 14 0xDEADBEEF,
                 LastTokenMask = 0, Tokens = 2, MaxElements = 64\<rparr>"

definition exampleA :: "32 BitSet" where
  "exampleA = \<lparr>TokenArray = [14] @ replicate 15 0xDEADBEEF,
                LastTokenMask = 1023, Tokens = 1, MaxElements = 10\<rparr>"

definition exampleB :: "32 BitSet" where
  "exampleB = \<lparr>TokenArray = [56] @ replicate 15 0xDEADBEEF,
                LastTokenMask = 1023, Tokens = 1, MaxElements = 10\<rparr>"

definition exampleC :: "32 BitSet" where
  "exampleC = \<lparr>TokenArray = [544] @ replicate 15 0xDEADBEEF,
                LastTokenMask = 1023, Tokens = 1, MaxElements = 10\<rparr>"

section \<open>Auxiliary facts\<close>

lemma fold_update_pointwise:
  "fold (\<lambda>i a. a[i := h i (a ! i)]) [0..<n] arr =
     map (\<lambda>i. if i < n then h i (arr ! i) else arr ! i) [0..<length arr]"
proof (induction n)
  case 0
  show ?case by (simp add: map_nth)
next
  case (Suc n)
  show ?case
    by (rule nth_equalityI) (simp_all add: Suc nth_list_update less_Suc_eq)
qed

lemma ClearAllBits_eq:
  "ClearAllBits arr n = map (\<lambda>i. if i < n then 0 else arr ! i) [0..<length arr]"
  unfolding ClearAllBits_def by (rule fold_update_pointwise [where h = "\<lambda>i x. 0"])

lemma OrVector_eq:
  "OrVector dst a b n = map (\<lambda>i. if i < n then a ! i OR b ! i else dst ! i) [0..<length dst]"
  unfolding OrVector_def by (rule fold_update_pointwise [where h = "\<lambda>i x. a ! i OR b ! i"])

lemma AndVector_eq:
  "AndVector dst a b n = map (\<lambda>i. if i < n then a ! i AND b ! i else dst ! i) [0..<length dst]"
  unfolding AndVector_def by (rule fold_update_pointwise [where h = "\<lambda>i x. a ! i AND b ! i"])

lemma Complement_TokenArray:
  "TokenArray (Complement s) =
     map (\<lambda>i. if i < unat (Tokens s) then NOT (TokenArray s ! i) else TokenArray s ! i)
       [0..<length (TokenArray s)]"
  unfolding Complement_def
  by (simp add: fold_update_pointwise [where h = "\<lambda>i x. NOT x"])

lemma IsEmpty_loop_iff: "IsEmpty_loop arr is \<longleftrightarrow> (\<forall>i \<in> set is. arr ! i = 0)"
  by (induction "is") auto

lemma ReqSize_ge: "unat r \<le> ReqSize r"
  by (simp add: ReqSize_def max_def word_le_nat_alt)

lemma IsEmpty_Clear: "allocated s \<Longrightarrow> IsEmpty (Clear s)"
  by (simp add: IsEmpty_def Clear_def IsEmpty_loop_iff ClearAllBits_eq allocated_def)

lemma Tokens_Clear [simp]: "Tokens (Clear s) = Tokens s"
  and MaxElements_Clear [simp]: "MaxElements (Clear s) = MaxElements s"
  and LastTokenMask_Clear [simp]: "LastTokenMask (Clear s) = LastTokenMask s"
  and length_Clear [simp]: "length (TokenArray (Clear s)) = length (TokenArray s)"
  by (simp_all add: Clear_def ClearAllBits_eq)

lemma allocated_ctor: "allocated (BitSet_ctor m mem)"
  by (simp add: allocated_def BitSet_ctor_def Let_def malloc_def ReqSize_ge)

lemma IsEmpty_ctor: "IsEmpty (BitSet_ctor m mem)"
  by (simp add: BitSet_ctor_def Let_def IsEmpty_Clear allocated_def malloc_def ReqSize_ge)


section \<open>Contains, Add, Remove\<close>

lemma token_in_range:
  fixes s :: "'w::len BitSet"
  assumes "unat element < unat (Tokens s * ElementsPerToken TYPE('w))"
  shows "unat element div unat (ElementsPerToken TYPE('w)) < unat (Tokens s)"
proof -
  have "unat (Tokens s * ElementsPerToken TYPE('w))
          \<le> unat (Tokens s) * unat (ElementsPerToken TYPE('w))"
    by (simp add: unat_word_ariths)
  with assms have "unat element < unat (Tokens s) * unat (ElementsPerToken TYPE('w))"
    by simp
  then show ?thesis
    by (rule less_mult_imp_div_less)
qed

lemma unat_ElementsPerToken_le: "unat (ElementsPerToken TYPE('w::len)) \<le> LENGTH('w)"
  by (simp add: ElementsPerToken_def unat_of_nat)

lemma unat_ElementsPerToken: "LENGTH('w::len) < 2 ^ 32 \<Longrightarrow> unat (ElementsPerToken TYPE('w)) = LENGTH('w)"
  by (simp add: ElementsPerToken_def unat_of_nat)

lemma offset_in_range:
  fixes s :: "'w::len BitSet"
  assumes "unat element < unat (Tokens s * ElementsPerToken TYPE('w::len))"
  shows "unat element mod unat (ElementsPerToken TYPE('w)) < LENGTH('w)"
proof -
  have "unat (ElementsPerToken TYPE('w)) \<noteq> 0"
    using assms by (auto simp: unat_eq_0)
  then have "unat element mod unat (ElementsPerToken TYPE('w)) < unat (ElementsPerToken TYPE('w))"
    by simp
  then show ?thesis
    using unat_ElementsPerToken_le [where 'w = 'w] by simp
qed

lemma Contains_cong:
  fixes s t :: "'w::len BitSet"
  assumes "Tokens s = Tokens t" "MaxElements s = MaxElements t"
    and "\<And>i. i < unat (Tokens s) \<Longrightarrow> TokenArray s ! i = TokenArray t ! i"
  shows "Contains s element = Contains t element"
  using assms token_in_range [of element s]
  by (simp add: Contains_def Let_def)


lemma bit_SetBit_other: "i \<noteq> j \<Longrightarrow> TestBit (SetBit w i) j = TestBit w j"
  by (auto simp: TestBit_def SetBit_def bit_set_bit_iff)

lemma bit_ClearBit_other: "i \<noteq> j \<Longrightarrow> TestBit (ClearBit w i) j = TestBit w j"
  by (auto simp: TestBit_def ClearBit_def bit_unset_bit_iff)

lemma bit_SetBit_same: "i < LENGTH('w) \<Longrightarrow> TestBit (SetBit w i) i" for w :: "'w::len word"
  by (simp add: TestBit_def SetBit_def bit_set_bit_iff)

lemma bit_ClearBit_same: "\<not> TestBit (ClearBit w i) i"
  by (simp add: TestBit_def ClearBit_def bit_unset_bit_iff)

lemma Add_Contains_other:
  fixes s :: "'w::len BitSet" and e f :: "'e::len word"
  assumes al: "allocated s" and ne: "e \<noteq> f" and ad: "Add s e = Inr s'"
  shows "Contains s' f = Contains s f"
proof -
  let ?E = "unat (ElementsPerToken TYPE('w))"
  from ad have v: "unat e < unat (Tokens s * ElementsPerToken TYPE('w))"
    and s': "s' = s\<lparr>TokenArray := (TokenArray s)
                [unat e div ?E := SetBit (TokenArray s ! (unat e div ?E)) (unat e mod ?E)]\<rparr>"
    by (auto simp: Add_def Let_def split: if_splits)
  have len: "unat e div ?E < length (TokenArray s)"
    using token_in_range [OF v] al by (simp add: allocated_def)
  have "unat e \<noteq> unat f" using ne by (simp add: word_unat_eq_iff)
  then have d: "unat f div ?E = unat e div ?E \<Longrightarrow> unat e mod ?E \<noteq> unat f mod ?E"
    by (metis div_mult_mod_eq)
  show ?thesis
    using len d
    by (simp add: s' Contains_def Let_def nth_list_update bit_SetBit_other)
qed

lemma Remove_Contains_other:
  fixes s :: "'w::len BitSet" and e f :: "'e::len word"
  assumes al: "allocated s" and ne: "e \<noteq> f" and ad: "Remove s e = Inr s'"
  shows "Contains s' f = Contains s f"
proof -
  let ?E = "unat (ElementsPerToken TYPE('w))"
  from ad have v: "unat e < unat (Tokens s * ElementsPerToken TYPE('w))"
    and s': "s' = s\<lparr>TokenArray := (TokenArray s)
                [unat e div ?E := ClearBit (TokenArray s ! (unat e div ?E)) (unat e mod ?E)]\<rparr>"
    by (auto simp: Remove_def Let_def split: if_splits)
  have len: "unat e div ?E < length (TokenArray s)"
    using token_in_range [OF v] al by (simp add: allocated_def)
  have "unat e \<noteq> unat f" using ne by (simp add: word_unat_eq_iff)
  then have d: "unat f div ?E = unat e div ?E \<Longrightarrow> unat e mod ?E \<noteq> unat f mod ?E"
    by (metis div_mult_mod_eq)
  show ?thesis
    using len d
    by (simp add: s' Contains_def Let_def nth_list_update bit_ClearBit_other)
qed

lemma Add_then_Contains:
  fixes s :: "'w::len BitSet" and e :: "'e::len word"
  assumes al: "allocated s" and ad: "Add s e = Inr s'"
  shows "Contains s' e = Inr True"
proof -
  let ?E = "unat (ElementsPerToken TYPE('w))"
  from ad have v: "unat e < unat (Tokens s * ElementsPerToken TYPE('w))"
    and m: "unat e < unat (MaxElements s)"
    and s': "s' = s\<lparr>TokenArray := (TokenArray s)
                [unat e div ?E := SetBit (TokenArray s ! (unat e div ?E)) (unat e mod ?E)]\<rparr>"
    by (auto simp: Add_def Let_def split: if_splits)
  have len: "unat e div ?E < length (TokenArray s)"
    using token_in_range [OF v] al by (simp add: allocated_def)
  show ?thesis
    using len v m offset_in_range [OF v]
    by (simp add: s' Contains_def Let_def bit_SetBit_same)
qed

lemma Remove_then_Contains:
  fixes s :: "'w::len BitSet" and e :: "'e::len word"
  assumes al: "allocated s" and ad: "Remove s e = Inr s'"
  shows "Contains s' e = Inr False"
proof -
  let ?E = "unat (ElementsPerToken TYPE('w))"
  from ad have v: "unat e < unat (Tokens s * ElementsPerToken TYPE('w))"
    and m: "unat e < unat (MaxElements s)"
    and s': "s' = s\<lparr>TokenArray := (TokenArray s)
                [unat e div ?E := ClearBit (TokenArray s ! (unat e div ?E)) (unat e mod ?E)]\<rparr>"
    by (auto simp: Remove_def Let_def split: if_splits)
  have len: "unat e div ?E < length (TokenArray s)"
    using token_in_range [OF v] al by (simp add: allocated_def)
  show ?thesis
    using len v m
    by (simp add: s' Contains_def Let_def bit_ClearBit_same)
qed

lemma Add_fields:
  assumes "Add s e = Inr s'"
  shows "Tokens s' = Tokens s" "MaxElements s' = MaxElements s"
    "LastTokenMask s' = LastTokenMask s" "length (TokenArray s') = length (TokenArray s)"
  using assms by (auto simp: Add_def Let_def split: if_splits)

lemma Remove_fields:
  assumes "Remove s e = Inr s'"
  shows "Tokens s' = Tokens s" "MaxElements s' = MaxElements s"
    "LastTokenMask s' = LastTokenMask s" "length (TokenArray s') = length (TokenArray s)"
  using assms by (auto simp: Remove_def Let_def split: if_splits)

lemma Add_succeeds:
  fixes s :: "'w::len BitSet"
  assumes "unat e < unat (Tokens s * ElementsPerToken TYPE('w))" "unat e < unat (MaxElements s)"
  shows "\<exists>s'. Add s e = Inr s'"
  using assms by (simp add: Add_def Let_def)

lemma Remove_succeeds:
  fixes s :: "'w::len BitSet"
  assumes "unat e < unat (Tokens s * ElementsPerToken TYPE('w))" "unat e < unat (MaxElements s)"
  shows "\<exists>s'. Remove s e = Inr s'"
  using assms by (simp add: Remove_def Let_def)


lemma ForEachMember_loop_frame: "fst (ForEachMember_loop s cb is offset a) = s"
  by (induction "is" arbitrary: offset a) (simp_all add: Let_def)

lemma Complement_fields [simp]:
  "Tokens (Complement s) = Tokens s" "MaxElements (Complement s) = MaxElements s"
  "LastTokenMask (Complement s) = LastTokenMask s"
  "length (TokenArray (Complement s)) = length (TokenArray s)"
  by (simp_all add: Complement_TokenArray) (simp_all add: Complement_def)

lemma Complement_Complement: "Complement (Complement s) = s"
proof -
  have "TokenArray (Complement (Complement s)) = TokenArray s"
    by (rule nth_equalityI) (simp_all add: Complement_TokenArray)
  then show ?thesis
    by (simp add: Complement_def)
qed



section \<open>The concrete instance evaluated\<close>

lemma ctor70:
  "(BitSet_ctor 70 junk :: 32 BitSet) =
     \<lparr>TokenArray = [0, 0, 0] @ replicate 13 0xDEADBEEF,
      LastTokenMask = 63, Tokens = 3, MaxElements = 70\<rparr>"
  by code_simp

lemma set70_eq: "set70 = Inr example70"
  by code_simp

lemma scenario70:
  "Contains example70 (69 :: 32 word) = Inr True"
  "Contains example70 (68 :: 32 word) = Inr False"
  "snd (ForEachMember example70 visit_all []) = [0, 31, 32, 69 :: 32 word]"
  "\<not> IsEmpty example70"
  "IsEmpty (Clear example70)"
  "snd (ForEachMember (Clear example70) visit_all []) = ([] :: 32 word list)"
  by code_simp+

section \<open>Emptiness after construction and after \<open>Clear\<close>\<close>

text \<open>
  C7: \<open>IsEmpty\<close> returns true immediately after construction, for every universe size and
  whatever the fresh block holds, and immediately after \<open>Clear\<close> on any instance in use.
\<close>

theorem IsEmpty_after_construction_and_Clear:
  "IsEmpty (BitSet_ctor maxElements mem) \<and> (allocated s \<longrightarrow> IsEmpty (Clear s))"
proof (intro conjI impI)
  show "IsEmpty (BitSet_ctor maxElements mem)"
    by (rule IsEmpty_ctor)
next
  assume "allocated s"
  then have "\<forall>i < unat (Tokens s). TokenArray (Clear s) ! i = 0"
    by (simp add: Clear_def ClearAllBits_eq allocated_def)
  then show "IsEmpty (Clear s)"
    by (simp add: IsEmpty_def IsEmpty_loop_iff)
qed

theorem IsEmpty_after_construction_and_Clear_witness:
  "IsEmpty (BitSet_ctor 70 junk :: 32 BitSet) \<and> allocated example70 \<and>
   \<not> IsEmpty example70 \<and> IsEmpty (Clear example70)"
proof -
  have a: "allocated example70"
    by (simp add: allocated_def example70_def)
  have n: "\<not> IsEmpty example70"
    by (rule scenario70)
  show ?thesis
    using IsEmpty_after_construction_and_Clear [of 70 junk example70] a n by simp
qed

section \<open>Enumeration does not write to the set\<close>

text \<open>
  C8: \<open>ForEachMember\<close> leaves the instance as it was, for every visitor and whether or
  not the visitor stops the enumeration: the scan clears bits of the local \<open>token\<close> only.
\<close>

theorem ForEachMember_leaves_storage: "fst (ForEachMember s cb a) = s"
proof -
  have "fst (ForEachMember_loop s cb is offset a) = s" for "is" offset
  proof (induction "is" arbitrary: offset a)
    case Nil
    show ?case by simp
  next
    case (Cons i "is")
    show ?case
      by (cases "fst (scan_token
                  (if (of_nat i :: 32 word) = Tokens s - 1
                   then TokenArray s ! i AND LastTokenMask s else TokenArray s ! i)
                  offset cb a)")
        (simp_all add: Let_def Cons.IH)
  qed
  then show ?thesis
    by (simp add: ForEachMember_def)
qed

section \<open>Double complement\<close>

text \<open>
  C4: for every instance in use and every valid element \<open>e\<close>, \<open>Contains e\<close> after two calls
  of \<open>Complement\<close> is \<open>Contains e\<close> before them; after the first call every token below
  \<open>Tokens\<close> is the bitwise negation of what it was, tail bits of the last token included.
\<close>

theorem Complement_twice_restores_membership:
  fixes s :: "'w::len BitSet" and e :: "'e::len word"
  assumes "allocated s" and "unat e < unat (MaxElements s)"
  shows "Contains (Complement (Complement s)) e = Contains s e \<and>
         (\<forall>i < unat (Tokens s). TokenArray (Complement s) ! i = NOT (TokenArray s ! i))"
  using assms by (simp add: Complement_Complement Complement_TokenArray allocated_def)

theorem Complement_twice_restores_membership_witness:
  "allocated example70 \<and> unat (69 :: 32 word) < unat (MaxElements example70) \<and>
   Contains (Complement (Complement example70)) (69 :: 32 word) = Inr True \<and>
   Contains example70 (69 :: 32 word) = Inr True \<and>
   TokenArray (Complement example70) ! 2 = NOT 32"
proof -
  have a: "allocated example70"
    by (simp add: allocated_def example70_def)
  have v: "unat (69 :: 32 word) < unat (MaxElements example70)"
    by (simp add: example70_def)
  have c: "Contains example70 (69 :: 32 word) = Inr True"
    by (rule scenario70)
  have t: "TokenArray example70 ! 2 = 32" "(2 :: nat) < unat (Tokens example70)"
    by (simp_all add: example70_def)
  show ?thesis
    using Complement_twice_restores_membership [of example70 "69 :: 32 word"] a v c t
    by simp
qed

section \<open>Single-element mutations touch one element\<close>

text \<open>
  C10: for every instance in use and distinct elements \<open>e\<close> and \<open>f\<close>, a call of \<open>Add e\<close> or
  of \<open>Remove e\<close> that returns leaves the result of \<open>Contains f\<close> as it was; and the calls
  return when \<open>e\<close> passes the two assertions.
\<close>

theorem Add_Remove_frame:
  fixes s :: "'w::len BitSet" and e f :: "'e::len word"
  assumes "allocated s" and "e \<noteq> f"
  shows "(\<forall>s'. Add s e = Inr s' \<longrightarrow> Contains s' f = Contains s f) \<and>
         (\<forall>s'. Remove s e = Inr s' \<longrightarrow> Contains s' f = Contains s f) \<and>
         (unat e < unat (Tokens s * ElementsPerToken TYPE('w)) \<and> unat e < unat (MaxElements s)
            \<longrightarrow> (\<exists>s'. Add s e = Inr s') \<and> (\<exists>s'. Remove s e = Inr s'))"
proof (intro conjI allI impI)
  fix s' assume "Add s e = Inr s'"
  with assms show "Contains s' f = Contains s f"
    by (rule Add_Contains_other)
next
  fix s' assume "Remove s e = Inr s'"
  with assms show "Contains s' f = Contains s f"
    by (rule Remove_Contains_other)
next
  assume "unat e < unat (Tokens s * ElementsPerToken TYPE('w)) \<and> unat e < unat (MaxElements s)"
  then show "\<exists>s'. Add s e = Inr s'"
    by (simp add: Add_succeeds)
next
  assume "unat e < unat (Tokens s * ElementsPerToken TYPE('w)) \<and> unat e < unat (MaxElements s)"
  then show "\<exists>s'. Remove s e = Inr s'"
    by (simp add: Remove_succeeds)
qed

theorem Add_Remove_frame_witness:
  "allocated example70 \<and> (69 :: 32 word) \<noteq> 32 \<and>
   (\<exists>s'. Add example70 (69 :: 32 word) = Inr s' \<and>
         Contains s' (32 :: 32 word) = Inr True \<and>
         Contains example70 (32 :: 32 word) = Inr True) \<and>
   (\<exists>s'. Remove example70 (69 :: 32 word) = Inr s' \<and>
         Contains s' (32 :: 32 word) = Inr True)"
proof -
  have a: "allocated example70"
    by (simp add: allocated_def example70_def)
  have c: "Contains example70 (32 :: 32 word) = Inr True"
    by code_simp
  obtain s1 where s1: "Add example70 (69 :: 32 word) = Inr s1"
    using Add_succeeds [of "69 :: 32 word" example70]
    by (auto simp: example70_def ElementsPerToken_def)
  obtain s2 where s2: "Remove example70 (69 :: 32 word) = Inr s2"
    using Remove_succeeds [of "69 :: 32 word" example70]
    by (auto simp: example70_def ElementsPerToken_def)
  show ?thesis
    using Add_Remove_frame [of example70 "69 :: 32 word" "32 :: 32 word"] a c s1 s2
    by simp
qed

section \<open>The word count\<close>

lemma ctor_fields:
  "MaxElements (BitSet_ctor m mem) = m"
  "Tokens (BitSet_ctor m mem :: 'w::len BitSet) =
     (if (m div ElementsPerToken TYPE('w)) * ElementsPerToken TYPE('w) \<noteq> m
      then m div ElementsPerToken TYPE('w) + 1 else m div ElementsPerToken TYPE('w))"
  "LastTokenMask (BitSet_ctor m mem :: 'w::len BitSet) =
     fold (\<lambda>i m. SetBit m i) [0..<unat (m mod ElementsPerToken TYPE('w))] 0"
  by (simp_all add: BitSet_ctor_def Let_def)

lemma ceil_div_cases:
  fixes n L :: nat
  assumes "0 < L"
  shows "(n + L - 1) div L = (if L dvd n then n div L else n div L + 1)"
proof (cases "L dvd n")
  case True
  then have n: "n = (n div L) * L" by simp
  have "n + L - 1 = (L - 1) + (n div L) * L"
    using assms n by simp
  then have "(n + L - 1) div L = ((L - 1) + (n div L) * L) div L"
    by simp
  also have "\<dots> = n div L + (L - 1) div L"
    using assms by (intro div_mult_self1) simp
  also have "\<dots> = n div L"
    using assms by simp
  finally show ?thesis using True by simp
next
  case False
  then have r: "0 < n mod L" by (simp add: dvd_eq_mod_eq_0)
  have "n = n mod L + (n div L) * L" by simp
  then have "n + L - 1 = (n mod L - 1) + (n div L + 1) * L"
    using r by simp
  then have "(n + L - 1) div L = ((n mod L - 1) + (n div L + 1) * L) div L"
    by simp
  also have "\<dots> = (n div L + 1) + (n mod L - 1) div L"
    using assms by (intro div_mult_self1) simp
  also have "\<dots> = n div L + 1"
    using assms by (simp add: less_imp_diff_less)
  finally show ?thesis using False by simp
qed

lemma word_count_ok_ctor:
  assumes L: "LENGTH('w::len) < 2 ^ 32"
  shows "word_count_ok (BitSet_ctor m mem :: 'w BitSet)"
proof -
  let ?E = "ElementsPerToken TYPE('w)"
  let ?L = "LENGTH('w)"
  have E: "unat ?E = ?L" using L by (rule unat_ElementsPerToken)
  have d: "unat (m div ?E) = unat m div ?L" by (simp add: unat_div E)
  have le: "unat m div ?L * ?L \<le> unat m" by simp
  have lt: "unat m < 2 ^ 32" using unsigned_less [of m] by simp
  have "unat (m div ?E * ?E) = (unat (m div ?E) * unat ?E) mod 2 ^ 32"
    by (simp only: unat_word_ariths) simp
  also have "\<dots> = (unat m div ?L * ?L) mod 2 ^ 32"
    by (simp only: d E)
  also have "\<dots> = unat m div ?L * ?L"
    by (intro mod_less) (rule le_less_trans [OF le lt])
  finally have p: "unat (m div ?E * ?E) = unat m div ?L * ?L" .
  have eq: "m div ?E * ?E = m \<longleftrightarrow> ?L dvd unat m"
  proof
    assume "m div ?E * ?E = m"
    then have "unat m div ?L * ?L = unat m" using p by simp
    then show "?L dvd unat m" by (metis dvd_triv_right)
  next
    assume "?L dvd unat m"
    then have "unat (m div ?E * ?E) = unat m" using p by simp
    then show "m div ?E * ?E = m" by (simp add: word_unat_eq_iff)
  qed
  have inc: "unat (m div ?E + 1) = unat m div ?L + 1" if "\<not> ?L dvd unat m"
  proof -
    from that have "?L \<noteq> 1" by auto
    moreover have "0 < ?L" by simp
    ultimately have "2 \<le> ?L" by linarith
    then have "unat m div ?L \<le> unat m div 2" by (rule div_le_mono2 [rotated]) simp
    then have "unat m div ?L + 1 < 2 ^ 32" using lt by simp
    moreover have "unat (m div ?E + 1) = (unat (m div ?E) + 1) mod 2 ^ 32"
      by (simp only: unat_word_ariths) simp
    ultimately show ?thesis by (simp add: d)
  qed
  have c: "(unat m + ?L - 1) div ?L = (if ?L dvd unat m then unat m div ?L else unat m div ?L + 1)"
    by (rule ceil_div_cases) simp
  show ?thesis
  proof (cases "?L dvd unat m")
    case True
    then show ?thesis
      using eq d by (simp only: word_count_ok_def ctor_fields c) simp
  next
    case False
    then show ?thesis
      using eq inc by (simp only: word_count_ok_def ctor_fields c) simp
  qed
qed


lemma CopyFrom_fields:
  assumes "CopyFrom s c = Inr s'"
  shows "Tokens s' = Tokens s" "MaxElements s' = MaxElements s"
    "LastTokenMask s' = LastTokenMask s"
    "TokenArray s' = memcpy (TokenArray s) (TokenArray c) (unat (Tokens s))"
    "universe_compatible s c"
  using assms by (auto simp: CopyFrom_def universe_compatible_def split: if_splits)

lemma UnionWith_fields:
  assumes "UnionWith s c = Inr s'"
  shows "Tokens s' = Tokens s" "MaxElements s' = MaxElements s"
    "LastTokenMask s' = LastTokenMask s"
    "TokenArray s' = OrVector (TokenArray s) (TokenArray s) (TokenArray c) (unat (Tokens s))"
  using assms by (auto simp: UnionWith_def split: if_splits)

lemma IntersectWith_fields:
  assumes "IntersectWith s c = Inr s'"
  shows "Tokens s' = Tokens s" "MaxElements s' = MaxElements s"
    "LastTokenMask s' = LastTokenMask s"
    "TokenArray s' = AndVector (TokenArray s) (TokenArray s) (TokenArray c) (unat (Tokens s))"
  using assms by (auto simp: IntersectWith_def split: if_splits)

lemma word_count_ok_cong:
  fixes s s' :: "'w::len BitSet"
  shows "Tokens s' = Tokens s \<Longrightarrow> MaxElements s' = MaxElements s \<Longrightarrow>
   word_count_ok s' = word_count_ok s"
  by (simp add: word_count_ok_def)

lemma operator_assign_fields:
  assumes "operator_assign s rh mem = Inr s'"
  shows "Tokens s' = Tokens rh" "MaxElements s' = MaxElements rh"
    "LastTokenMask s' = LastTokenMask rh"
  using assms
  by (auto simp: operator_assign_def CopyFrom_def split: if_splits)

lemma BitSet_copy_fields:
  assumes "BitSet_copy c mem = Inr s'"
  shows "Tokens s' = Tokens c" "MaxElements s' = MaxElements c"
    "LastTokenMask s' = LastTokenMask c"
  using assms
  by (auto simp: BitSet_copy_def CopyFrom_def split: if_splits)

lemma BitSet_copy_succeeds: "\<exists>s'. BitSet_copy c mem = Inr s'"
  by (simp add: BitSet_copy_def CopyFrom_def)

text \<open>
  C9: the constructor establishes \<open>Tokens = ceil (MaxElements / bits per token)\<close>, and
  every operation keeps it: the in-place operations, the enumeration and the copy and move
  constructors leave both fields as they are, and copy assignment either leaves both or
  takes both from its source. The width of a token is below \<open>2 ^ 32\<close>, as
  \<open>ElementsPerToken\<close> is an \<^verbatim>\<open>unsigned int\<close>.
\<close>

theorem word_count_maintained:
  fixes s rh :: "'w::len BitSet"
  assumes "LENGTH('w) < 2 ^ 32"
  shows "word_count_ok (BitSet_ctor m mem :: 'w BitSet) \<and>
    (word_count_ok s \<longrightarrow>
       word_count_ok (Clear s) \<and>
       word_count_ok (Complement s) \<and>
       word_count_ok (fst (ForEachMember s cb a)) \<and>
       word_count_ok (fst (BitSet_move s)) \<and>
       (\<forall>s'. Add s e = Inr s' \<longrightarrow> word_count_ok s') \<and>
       (\<forall>s'. Remove s e = Inr s' \<longrightarrow> word_count_ok s') \<and>
       (\<forall>s'. CopyFrom s rh = Inr s' \<longrightarrow> word_count_ok s') \<and>
       (\<forall>s'. UnionWith s rh = Inr s' \<longrightarrow> word_count_ok s') \<and>
       (\<forall>s'. IntersectWith s rh = Inr s' \<longrightarrow> word_count_ok s') \<and>
       (\<forall>s'. BitSet_copy s mem' = Inr s' \<longrightarrow> word_count_ok s') \<and>
       (\<forall>s'. word_count_ok rh \<longrightarrow> operator_assign s rh mem' = Inr s' \<longrightarrow> word_count_ok s'))"
proof -
  have "word_count_ok (BitSet_ctor m mem :: 'w BitSet)"
    using assms by (rule word_count_ok_ctor)
  moreover have "word_count_ok (Clear s) = word_count_ok s"
    by (rule word_count_ok_cong) simp_all
  moreover have "word_count_ok (Complement s) = word_count_ok s"
    by (rule word_count_ok_cong) simp_all
  moreover have "word_count_ok (fst (ForEachMember s cb a)) = word_count_ok s"
    by (simp add: ForEachMember_def ForEachMember_loop_frame)
  moreover have "word_count_ok (fst (BitSet_move s)) = word_count_ok s"
    by (rule word_count_ok_cong) (simp_all add: BitSet_move_def)
  moreover have "word_count_ok s' = word_count_ok s" if "Add s e = Inr s'" for s'
    using that by (intro word_count_ok_cong Add_fields)
  moreover have "word_count_ok s' = word_count_ok s" if "Remove s e = Inr s'" for s'
    using that by (intro word_count_ok_cong Remove_fields)
  moreover have "word_count_ok s' = word_count_ok s" if "CopyFrom s rh = Inr s'" for s'
    using that by (intro word_count_ok_cong CopyFrom_fields)
  moreover have "word_count_ok s' = word_count_ok s" if "UnionWith s rh = Inr s'" for s'
    using that by (intro word_count_ok_cong UnionWith_fields)
  moreover have "word_count_ok s' = word_count_ok s" if "IntersectWith s rh = Inr s'" for s'
    using that by (intro word_count_ok_cong IntersectWith_fields)
  moreover have "word_count_ok s' = word_count_ok s" if "BitSet_copy s mem' = Inr s'" for s'
    using that by (intro word_count_ok_cong BitSet_copy_fields)
  moreover have "word_count_ok s' = word_count_ok rh" if "operator_assign s rh mem' = Inr s'" for s'
    using that by (intro word_count_ok_cong operator_assign_fields)
  ultimately show ?thesis by simp
qed


theorem word_count_maintained_witness:
  "LENGTH(32) < (2::nat) ^ 32 \<and>
   word_count_ok (BitSet_ctor 70 junk :: 32 BitSet) \<and> Tokens (BitSet_ctor 70 junk :: 32 BitSet) = 3 \<and>
   word_count_ok example70 \<and> word_count_ok (Clear example70) \<and>
   (\<exists>s'. Add example70 (69 :: 32 word) = Inr s' \<and> word_count_ok s') \<and>
   word_count_ok (BitSet_ctor 1000 junk :: 32 BitSet) \<and>
   (\<exists>s'. operator_assign example70 (BitSet_ctor 1000 junk) junk = Inr s' \<and>
         word_count_ok s' \<and> Tokens s' = 32 \<and> MaxElements s' = 1000)"
proof -
  have L: "LENGTH(32) < (2::nat) ^ 32" by simp
  have w: "word_count_ok example70"
    by (simp add: word_count_ok_def example70_def)
  have t: "Tokens (BitSet_ctor 70 junk :: 32 BitSet) = 3"
    by (simp add: ctor70)
  obtain s1 where s1: "Add example70 (69 :: 32 word) = Inr s1"
    using Add_succeeds [of "69 :: 32 word" example70]
    by (auto simp: example70_def ElementsPerToken_def)
  have f: "Tokens (BitSet_ctor 1000 junk :: 32 BitSet) = 32"
    "MaxElements (BitSet_ctor 1000 junk :: 32 BitSet) = 1000"
    by (simp_all add: ctor_fields ElementsPerToken_def)
  then obtain s2 where s2: "operator_assign example70 (BitSet_ctor 1000 junk) junk = Inr s2"
    by (simp add: operator_assign_def CopyFrom_def example70_def)
  have r: "word_count_ok (BitSet_ctor 1000 junk :: 32 BitSet)"
    using word_count_maintained
      [OF L, of 1000 junk example70 "visit_all :: 32 word \<Rightarrow> _" "[]" "69 :: 32 word" example70 junk]
    by simp
  show ?thesis
    using word_count_maintained
      [OF L, of 70 junk example70 "visit_all :: 32 word \<Rightarrow> _" "[]" "69 :: 32 word"
        "BitSet_ctor 1000 junk" junk]
      L w t s1 s2 r f operator_assign_fields [OF s2]
    by simp
qed

section \<open>The tail mask\<close>

lemma fold_SetBit_mask: "fold (\<lambda>i m. SetBit m i) [0..<k] 0 = mask k"
proof (induction k)
  case 0
  show ?case by simp
next
  case (Suc k)
  have "SetBit (mask k) k = mask (Suc k)"
    by (rule bit_eqI) (auto simp: SetBit_def bit_set_bit_iff bit_mask_iff less_Suc_eq)
  then show ?case by (simp add: Suc)
qed

lemma LastTokenMask_ctor:
  "LastTokenMask (BitSet_ctor m mem :: 'w::len BitSet) =
     mask (unat (m mod ElementsPerToken TYPE('w)))"
  by (simp add: ctor_fields fold_SetBit_mask)

lemma LastTokenMask_ctor_bits:
  assumes "LENGTH('w::len) < 2 ^ 32"
  shows "bit (LastTokenMask (BitSet_ctor m mem :: 'w BitSet)) n \<longleftrightarrow> n < unat m mod LENGTH('w)"
proof -
  have "n < LENGTH('w)" if "n < unat m mod LENGTH('w)"
    using that by (rule less_trans) simp
  then show ?thesis
    using assms by (auto simp add: LastTokenMask_ctor unat_mod unat_ElementsPerToken bit_mask_iff)
qed

text \<open>
  C2: the constructor sets the bits \<open>0 .. universeSize mod bitsPerWord - 1\<close> of
  \<open>LastTokenMask\<close> (lemma \<open>LastTokenMask_ctor_bits\<close>). For a universe size that is an
  exact multiple of the word width this is no bit at all: the mask is \<open>0\<close>, not the
  word with all bits set. Evaluated at universe sizes 32 and 64 over 32-bit tokens.
\<close>

theorem LastTokenMask_multiple_is_zero:
  "unat (32 :: 32 word) mod LENGTH(32) = 0 \<and>
   LastTokenMask (BitSet_ctor 32 junk :: 32 BitSet) = 0 \<and>
   LastTokenMask (BitSet_ctor 32 junk :: 32 BitSet) \<noteq> - 1 \<and>
   LastTokenMask (BitSet_ctor 64 junk :: 32 BitSet) = 0"
  by (simp add: LastTokenMask_ctor ElementsPerToken_def)

section \<open>What \<open>ForEachMember\<close> visits\<close>

lemma find_filter_distinct:
  "find P xs = Some x \<Longrightarrow> distinct xs \<Longrightarrow> filter P xs = x # filter (\<lambda>y. P y \<and> y \<noteq> x) xs"
proof (induction xs)
  case Nil
  then show ?case by simp
next
  case (Cons y ys)
  show ?case
  proof (cases "P y")
    case True
    then have x: "x = y" using Cons.prems(1) by simp
    have "filter (\<lambda>z. P z \<and> z \<noteq> y) ys = filter P ys"
      using Cons.prems(2) by (intro filter_cong) auto
    then show ?thesis using True x by simp
  next
    case False
    then show ?thesis using Cons by simp
  qed
qed

lemma find_None_filter: "find P xs = None \<Longrightarrow> filter P xs = []"
  by (simp add: find_None_iff filter_empty_conv)

lemma scan_token_eq:
  fixes token :: "'w::len word"
  shows "scan_token token offset cb a =
     visit_each cb (map (\<lambda>idx. ucast ((of_nat idx :: 64 word) + scast offset))
                     (filter (bit token) [0..<LENGTH('w)])) a"
proof (induction token offset cb a rule: scan_token.induct)
  case (1 token offset cb a)
  show ?case
  proof (cases "BitScanForward token")
    case None
    then have "filter (bit token) [0..<LENGTH('w)] = []"
      unfolding BitScanForward_def by (rule find_None_filter)
    then show ?thesis using None by simp
  next
    case (Some idx)
    then have "filter (bit token) [0..<LENGTH('w)] =
        idx # filter (\<lambda>y. bit token y \<and> y \<noteq> idx) [0..<LENGTH('w)]"
      unfolding BitScanForward_def by (rule find_filter_distinct) simp
    moreover have "(\<lambda>y. bit token y \<and> y \<noteq> idx) = bit (ClearBit token idx)"
      by (auto simp: ClearBit_def bit_unset_bit_iff fun_eq_iff)
    ultimately have f: "filter (bit token) [0..<LENGTH('w)] =
        idx # filter (bit (ClearBit token idx)) [0..<LENGTH('w)]"
      by simp
    show ?thesis
      using Some "1.IH" [OF Some refl refl]
      by (simp add: f Let_def)
  qed
qed


lemma visit_each_append:
  "visit_each cb (xs @ ys) a =
     (let r = visit_each cb xs a in if \<not> fst r then r else visit_each cb ys (snd r))"
  by (induction xs arbitrary: a) (simp_all add: Let_def)

lemma ForEachMember_loop_eq:
  fixes s :: "'w::len BitSet"
  shows "ForEachMember_loop s cb [k..<n] (of_nat k * ElementsPerToken TYPE('w)) a =
     (s, snd (visit_each cb (concat (map (token_elements s) [k..<n])) a))"
proof (induction "n - k" arbitrary: k a)
  case 0
  then show ?case by simp
next
  case (Suc d)
  then have kn: "k < n" and d: "d = n - Suc k" by simp_all
  have o: "of_nat k * ElementsPerToken TYPE('w) + ElementsPerToken TYPE('w)
             = of_nat (Suc k) * ElementsPerToken TYPE('w)"
    by (simp add: algebra_simps)
  show ?case
    using kn Suc.hyps(1) [OF d]
    by (simp add: upt_conv_Cons Let_def scan_token_eq token_elements_def o visit_each_append
        del: of_nat_Suc scan_token.simps)
qed

lemma ForEachMember_eq:
  "ForEachMember s cb a =
     (s, snd (visit_each cb (concat (map (token_elements s) [0..<unat (Tokens s)])) a))"
  using ForEachMember_loop_eq [of s cb 0 "unat (Tokens s)" a]
  by (simp add: ForEachMember_def)


lemma element_of_index:
  assumes "n < 2 ^ 31" and "idx < 2 ^ 32"
  shows "(ucast ((of_nat idx :: 64 word) + scast (of_nat n :: 32 word)) :: 'e::len word)
           = of_nat (n + idx)"
proof -
  have "signed_take_bit 31 (int n) = int n"
    using assms(1) by (intro signed_take_bit_int_eq_self) simp_all
  then have "(scast (of_nat n :: 32 word) :: 64 word) = of_nat n"
    by (simp add: signed_of_nat)
  then have "(of_nat idx :: 64 word) + scast (of_nat n :: 32 word) = of_nat (n + idx)"
    by simp
  moreover have "n + idx < 2 ^ 64"
    using assms by simp
  then have "take_bit 64 (n + idx) = n + idx"
    by (simp add: take_bit_nat_eq_self)
  ultimately show ?thesis
    by (simp only: unsigned_of_nat) simp
qed

lemma element_of_index_narrow:
  assumes E: "LENGTH('e::len) \<le> 32"
  shows "(ucast ((of_nat idx :: 64 word) + scast (of_nat n :: 32 word)) :: 'e word)
           = of_nat (n + idx)"
proof -
  let ?A = "of_nat idx :: 64 word" and ?y = "of_nat n :: 32 word"
  have E64: "LENGTH('e) \<le> 64" using E by simp
  have "(ucast (?A + scast ?y) :: 'e word)
          = word_of_int (take_bit 64 (uint ?A + uint (scast ?y :: 64 word)))"
    by (simp add: ucast_eq uint_word_arith_bintrs)
  also have "\<dots> = word_of_int (uint ?A + uint (scast ?y :: 64 word))"
    using E64 by (rule wi_bintr)
  also have "\<dots> = word_of_int (uint ?A) + word_of_int (uint (scast ?y :: 64 word))"
    by simp
  also have "(word_of_int (uint ?A) :: 'e word) = of_nat idx"
  proof -
    have "uint ?A = take_bit 64 (int idx)"
      by (simp add: unsigned_of_nat take_bit_of_nat)
    then have "(word_of_int (uint ?A) :: 'e word) = word_of_int (int idx)"
      using E64 by (simp only: wi_bintr)
    then show ?thesis by simp
  qed
  also have "(word_of_int (uint (scast ?y :: 64 word)) :: 'e word) = of_nat n"
  proof -
    have "uint (scast ?y :: 64 word) = take_bit 64 (sint ?y)"
      by (simp only: scast_eq uint_word_of_int_eq) simp
    then have "(word_of_int (uint (scast ?y :: 64 word)) :: 'e word) = word_of_int (sint ?y)"
      using E64 by (simp only: wi_bintr)
    also have "sint ?y = signed_take_bit 31 (int n)"
      by (simp add: signed_of_nat)
    also have "(word_of_int (signed_take_bit 31 (int n)) :: 'e word) = word_of_int (int n)"
    proof -
      have "take_bit LENGTH('e) (signed_take_bit 31 (int n)) = take_bit LENGTH('e) (int n)"
        using E by (intro take_bit_signed_take_bit) simp
      then show ?thesis by (simp only: word_of_int_eq_iff)
    qed
    finally show ?thesis by simp
  qed
  finally show ?thesis by simp
qed

lemma map_add_filter_upt:
  "map (\<lambda>idx. c + idx) (filter Q [0..<m]) = filter (\<lambda>n. Q (n - c)) [c..<c + m]"
proof -
  have "[c..<c + m] = map (\<lambda>idx. c + idx) [0..<m]"
    using map_add_upt [of c m] by (simp add: add.commute)
  then show ?thesis
    by (simp add: filter_map comp_def)
qed


lemma token_elements_chunk:
  fixes s :: "'w::len BitSet"
  assumes L: "LENGTH('w) < 2 ^ 32" and ok: "word_count_ok s" and tm: "tail_mask_ok s"
    and nm: "\<not> LENGTH('w) dvd unat (MaxElements s)"
    and wide: "LENGTH('e::len) \<le> 32 \<or> unat (MaxElements s) \<le> 2 ^ 31"
    and i: "i < unat (Tokens s)"
  shows "(token_elements s i :: 'e word list) =
           map of_nat (filter (member s)
             [i * LENGTH('w) ..< min (Suc i * LENGTH('w)) (unat (MaxElements s))])"
proof -
  let ?L = "LENGTH('w)" and ?M = "unat (MaxElements s)"
  define q where "q = ?M div ?L"
  define r where "r = ?M mod ?L"
  have M: "?M = q * ?L + r" and r: "r < ?L"
    by (simp_all add: q_def r_def)
  have r0: "0 < r"
    using nm by (simp add: r_def dvd_eq_mod_eq_0)
  have T: "unat (Tokens s) = Suc q"
    using ok nm ceil_div_cases [of ?L ?M] by (simp add: word_count_ok_def q_def)
  have iq: "i \<le> q" using i T by simp
  have iL: "i * ?L \<le> q * ?L" using iq by simp
  then have n31: "i * ?L < 2 ^ 31" if "?M \<le> 2 ^ 31"
    using that M r0 by linarith
  have E: "(of_nat i :: 32 word) * ElementsPerToken TYPE('w) = of_nat (i * ?L)"
    by (simp add: ElementsPerToken_def)
  have conv: "(ucast ((of_nat idx :: 64 word) + scast (of_nat i * ElementsPerToken TYPE('w)))
                 :: 'e word) = of_nat (i * ?L + idx)" if "idx < ?L" for idx
  proof (cases "LENGTH('e) \<le> 32")
    case True
    then show ?thesis
      unfolding E by (rule element_of_index_narrow)
  next
    case False
    then have "?M \<le> 2 ^ 31" using wide by simp
    then show ?thesis
      unfolding E using n31 that L by (intro element_of_index) simp_all
  qed
  have last: "((of_nat i :: 32 word) = Tokens s - 1) \<longleftrightarrow> i = q"
  proof -
    have "of_nat (unat (Tokens s)) = Tokens s"
      by simp
    then have "Tokens s = of_nat (Suc q)"
      by (simp only: T)
    then have "Tokens s - 1 = of_nat q" by simp
    moreover have "unat (of_nat i :: 32 word) = i" "unat (of_nat q :: 32 word) = q"
      using iq T le_unat_uoi [of i "Tokens s"] le_unat_uoi [of q "Tokens s"] by simp_all
    ultimately show ?thesis by (metis)
  qed
  define Q where "Q = bit (if (of_nat i :: 32 word) = Tokens s - 1
                     then TokenArray s ! i AND LastTokenMask s else TokenArray s ! i)"
  have "(token_elements s i :: 'e word list) =
          map (\<lambda>idx. of_nat (i * ?L + idx)) (filter Q [0..<?L])"
    unfolding token_elements_def Q_def
    by (rule map_cong [OF refl]) (simp add: conv)
  also have "\<dots> = map of_nat (map (\<lambda>idx. i * ?L + idx) (filter Q [0..<?L]))"
    by (simp add: comp_def)
  also have "map (\<lambda>idx. i * ?L + idx) (filter Q [0..<?L])
               = filter (\<lambda>n. Q (n - i * ?L)) [i * ?L..<i * ?L + ?L]"
    by (rule map_add_filter_upt)
  also have "\<dots> = filter (member s) [i * ?L ..< min (Suc i * ?L) ?M]"
  proof (cases "i = q")
    case False
    then have "Suc i \<le> q" using iq by simp
    then have "Suc i * ?L \<le> q * ?L" by (rule mult_le_mono1)
    then have m: "min (Suc i * ?L) ?M = i * ?L + ?L" using M by (simp add: min_def)
    have "Q (n - i * ?L) = member s n" if "n \<in> set [i * ?L..<i * ?L + ?L]" for n
    proof -
      from that obtain k where n: "n = i * ?L + k" and k: "k < ?L"
        by (metis atLeastLessThan_iff le_Suc_ex nat_add_left_cancel_less set_upt)
      show ?thesis
        using False k by (simp add: Q_def last member_def TestBit_def n)
    qed
    then show ?thesis unfolding m by (intro filter_cong refl)
  next
    case True
    have lq: "(of_nat q :: 32 word) = Tokens s - 1"
      using last True by simp
    have bitQ: "Q k = (member s (i * ?L + k) \<and> k < r)" if "k < ?L" for k
      using True that tm
      by (simp add: Q_def lq member_def TestBit_def tail_mask_ok_def bit_and_iff bit_mask_iff
          r_def)
    have m: "min (Suc i * ?L) ?M = i * ?L + r" using True M r by (simp add: min_def)
    have "[i * ?L..<i * ?L + ?L] = [i * ?L..<i * ?L + r] @ [i * ?L + r..<i * ?L + r + (?L - r)]"
      using r upt_add_eq_append [of "i * ?L" "i * ?L + r" "?L - r"] by simp
    moreover have "filter (\<lambda>n. Q (n - i * ?L)) [i * ?L + r..<i * ?L + r + (?L - r)] = []"
    proof -
      have "\<not> Q (n - i * ?L)" if "n \<in> set [i * ?L + r..<i * ?L + r + (?L - r)]" for n
      proof -
        from that r have "n - i * ?L < ?L" "\<not> n - i * ?L < r" by auto
        then show ?thesis using bitQ by simp
      qed
      then show ?thesis by (simp add: filter_empty_conv del: set_upt)
    qed
    moreover have "filter (\<lambda>n. Q (n - i * ?L)) [i * ?L..<i * ?L + r]
                     = filter (member s) [i * ?L..<i * ?L + r]"
    proof (rule filter_cong [OF refl])
      fix n assume "n \<in> set [i * ?L..<i * ?L + r]"
      then obtain k where n: "n = i * ?L + k" and k: "k < r"
        by (metis atLeastLessThan_iff le_Suc_ex nat_add_left_cancel_less set_upt)
      then show "Q (n - i * ?L) = member s n"
        using bitQ [of k] r by simp
    qed
    ultimately show ?thesis unfolding m by simp
  qed
  finally show ?thesis .
qed


lemma concat_token_elements:
  fixes s :: "'w::len BitSet"
  assumes L: "LENGTH('w) < 2 ^ 32" and ok: "word_count_ok s" and tm: "tail_mask_ok s"
    and nm: "\<not> LENGTH('w) dvd unat (MaxElements s)"
    and wide: "LENGTH('e::len) \<le> 32 \<or> unat (MaxElements s) \<le> 2 ^ 31"
    and k: "k \<le> unat (Tokens s)"
  shows "(concat (map (token_elements s) [0..<k]) :: 'e word list) =
           map of_nat (filter (member s) [0..<min (k * LENGTH('w)) (unat (MaxElements s))])"
  using k
proof (induction k)
  case 0
  show ?case by simp
next
  case (Suc k)
  let ?L = "LENGTH('w)" and ?M = "unat (MaxElements s)"
  have T: "unat (Tokens s) = Suc (?M div ?L)"
    using ok nm ceil_div_cases [of ?L ?M] by (simp add: word_count_ok_def)
  from Suc.prems have kT: "k < unat (Tokens s)" by simp
  then have "k \<le> ?M div ?L" using T by simp
  then have "k * ?L \<le> ?M div ?L * ?L" by (rule mult_le_mono1)
  also have "\<dots> \<le> ?M" by simp
  finally have kM: "k * ?L \<le> ?M" .
  then have m: "min (k * ?L) ?M = k * ?L" by simp
  have "k * ?L \<le> min (Suc k * ?L) ?M" using kM by simp
  then obtain d where d: "min (Suc k * ?L) ?M = k * ?L + d"
    using le_Suc_ex by blast
  have u: "[0..<k * ?L + d] = [0..<k * ?L] @ [k * ?L..<k * ?L + d]"
    by (rule upt_add_eq_append) simp
  have "(concat (map (token_elements s) [0..<Suc k]) :: 'e word list) =
          concat (map (token_elements s) [0..<k]) @ token_elements s k"
    by simp
  also have "\<dots> = map of_nat (filter (member s) [0..<k * ?L]) @
                   map of_nat (filter (member s) [k * ?L..<min (Suc k * ?L) ?M])"
    using Suc.IH kT token_elements_chunk [OF L ok tm nm wide kT]
    by (simp add: m)
  also have "\<dots> = map of_nat (filter (member s) [0..<min (Suc k * ?L) ?M])"
    unfolding d u by simp
  finally show ?case .
qed

lemma ForEachMember_visits_members:
  fixes s :: "'w::len BitSet" and cb :: "'e::len word \<Rightarrow> 'a \<Rightarrow> bool \<times> 'a"
  assumes L: "LENGTH('w) < 2 ^ 32" and ok: "word_count_ok s" and tm: "tail_mask_ok s"
    and nm: "\<not> LENGTH('w) dvd unat (MaxElements s)"
    and wide: "LENGTH('e::len) \<le> 32 \<or> unat (MaxElements s) \<le> 2 ^ 31"
  shows "ForEachMember s cb a = (s, snd (visit_each cb (map of_nat (members s)) a))"
proof -
  let ?L = "LENGTH('w)" and ?M = "unat (MaxElements s)"
  have T: "unat (Tokens s) = Suc (?M div ?L)"
    using ok nm ceil_div_cases [of ?L ?M] by (simp add: word_count_ok_def)
  have "?M = ?M div ?L * ?L + ?M mod ?L" by simp
  moreover have "?M mod ?L < ?L" by simp
  ultimately have "?M \<le> Suc (?M div ?L) * ?L"
    by (metis add_le_cancel_left less_imp_le mult_Suc add.commute)
  then have m: "min (unat (Tokens s) * ?L) ?M = ?M"
    by (simp only: T min_absorb2)
  show ?thesis
    using concat_token_elements [OF L ok tm nm wide order_refl]
    by (simp only: ForEachMember_eq m members_def)
qed

lemma visit_each_visit_all: "snd (visit_each visit_all xs acc) = acc @ xs"
  by (induction xs arbitrary: acc) (simp_all add: visit_all_def)

lemma visit_each_visit_stop: "snd (visit_each visit_stop xs acc) = acc @ take 1 xs"
  by (cases xs) (simp_all add: visit_stop_def)

lemma members_ascending: "sorted_wrt (<) (members s)"
  by (simp add: members_def sorted_wrt_filter)

lemma set_members: "set (members s) = {n. n < unat (MaxElements s) \<and> member s n}"
  by (auto simp: members_def)

lemma Contains_member:
  fixes s :: "'w::len BitSet"
  assumes "LENGTH('w) < 2 ^ 32" and "Contains s e = Inr b"
  shows "b = member s (unat e)"
  using assms
  by (auto simp: Contains_def Let_def member_def unat_ElementsPerToken split: if_splits)

lemma tail_mask_ok_ctor: "tail_mask_ok (BitSet_ctor m mem :: 'w::len BitSet)" if "LENGTH('w) < 2 ^ 32"
  using that by (simp add: tail_mask_ok_def LastTokenMask_ctor ctor_fields unat_mod unat_ElementsPerToken)

section \<open>Enumeration\<close>

text \<open>
  C1: \<open>ForEachMember\<close> is to visit every member once, in ascending order, also when the
  universe size is an exact multiple of the word width. There \<open>LastTokenMask\<close> is \<open>0\<close>, the
  last token is masked to \<open>0\<close> and none of its members is visited. Evaluated at universe
  size 32 after \<open>Add 0\<close> (\<open>Contains 0\<close> is true, no element is visited, with either
  visitor) and at universe size 64 after \<open>Add 5\<close> and \<open>Add 40\<close> (only 5 is visited).
  Lemma \<open>ForEachMember_visits_members\<close> above is the claim where the universe size is not
  a multiple of the word width (and the element type has at most 32 bits, or the universe
  size is at most \<open>2 ^ 31\<close>): the visitor is run over \<open>members s\<close>.
\<close>

theorem ForEachMember_skips_last_token_of_full_universe:
  "Add (BitSet_ctor 32 junk :: 32 BitSet) (0 :: 32 word) = Inr example32 \<and>
   Contains example32 (0 :: 32 word) = Inr True \<and>
   snd (ForEachMember example32 visit_all []) = ([] :: 32 word list) \<and>
   snd (ForEachMember example32 visit_stop []) = ([] :: 32 word list) \<and>
   bindE (Add (BitSet_ctor 64 junk :: 32 BitSet) (5 :: 32 word)) (\<lambda>s. Add s (40 :: 32 word))
     = Inr example64 \<and>
   Contains example64 (40 :: 32 word) = Inr True \<and>
   snd (ForEachMember example64 visit_all []) = [5 :: 32 word]"
  by code_simp

section \<open>Copy assignment\<close>

text \<open>
  C3: copy assignment is to make the destination a duplicate of any source. Universe sizes
  33 and 40 over 32-bit tokens both need two tokens, so \<open>operator=\<close> takes neither
  \<open>MaxElements\<close> nor \<open>LastTokenMask\<close> from the source and the assertions of \<open>CopyFrom\<close>
  fail. Lemma \<open>operator_assign_duplicates\<close> below is the case that works: a different
  word count, or universe-compatible operands.
\<close>

theorem operator_assign_same_word_count_fails:
  "Tokens (BitSet_ctor 33 junk :: 32 BitSet) = 2 \<and>
   Tokens (BitSet_ctor 40 junk :: 32 BitSet) = 2 \<and>
   LastTokenMask (BitSet_ctor 33 junk :: 32 BitSet) = 1 \<and>
   LastTokenMask (BitSet_ctor 40 junk :: 32 BitSet) = 255 \<and>
   operator_assign (BitSet_ctor 33 junk :: 32 BitSet) (BitSet_ctor 40 junk) junk
     = Inl AssertionFailed"
  by code_simp

section \<open>\<open>Add\<close>, \<open>Remove\<close> and \<open>Contains\<close> on the element itself\<close>

text \<open>
  C6: after \<open>Add e\<close> for a valid \<open>e\<close>, \<open>Contains e\<close> is to return true. At universe size
  \<open>2 ^ 32 - 1\<close> over 32-bit tokens \<open>Tokens\<close> is \<open>2 ^ 27\<close> and the product
  \<open>Tokens * ElementsPerToken\<close> of the first assertion wraps to \<open>0\<close>: the assertion fails
  for the valid element 0, in \<open>Add\<close> and in \<open>Contains\<close>. Lemma
  \<open>Add_Remove_Contains_no_wrap\<close> below is the claim for the universes where the product
  does not wrap.
\<close>

theorem Add_fails_first_assertion_near_2_32:
  "Tokens (BitSet_ctor 0xFFFFFFFF junk :: 32 BitSet) = 0x8000000 \<and>
   Tokens (BitSet_ctor 0xFFFFFFFF junk :: 32 BitSet) * ElementsPerToken TYPE(32) = 0 \<and>
   unat (0 :: 32 word) < unat (MaxElements (BitSet_ctor 0xFFFFFFFF junk :: 32 BitSet)) \<and>
   Add (BitSet_ctor 0xFFFFFFFF junk :: 32 BitSet) (0 :: 32 word) = Inl AssertionFailed \<and>
   Contains (BitSet_ctor 0xFFFFFFFF junk :: 32 BitSet) (0 :: 32 word) = Inl AssertionFailed"
  by (simp add: Add_def Contains_def ctor_fields ElementsPerToken_def)


lemma first_assertion_no_wrap:
  fixes s :: "'w::len BitSet"
  assumes L: "LENGTH('w) < 2 ^ 32" and ok: "word_count_ok s"
    and nw: "unat (MaxElements s) + LENGTH('w) \<le> 2 ^ 32"
  shows "unat (MaxElements s) \<le> unat (Tokens s * ElementsPerToken TYPE('w))"
proof -
  let ?L = "LENGTH('w)" and ?M = "unat (MaxElements s)"
  define Q where "Q = (?M + ?L - 1) div ?L"
  define R where "R = (?M + ?L - 1) mod ?L"
  have T: "unat (Tokens s) = Q"
    using ok by (simp add: word_count_ok_def Q_def)
  have pos: "0 < ?L" by simp
  have dm: "?M + ?L - 1 = Q * ?L + R"
    unfolding Q_def R_def by simp
  have R: "R < ?L"
    unfolding R_def by simp
  have up: "Q * ?L < 2 ^ 32"
    using dm nw pos by linarith
  have lo: "?M \<le> Q * ?L"
    using dm R pos by linarith
  have "unat (Tokens s * ElementsPerToken TYPE('w))
          = (unat (Tokens s) * unat (ElementsPerToken TYPE('w))) mod 2 ^ 32"
    by (simp only: unat_word_ariths) simp
  also have "\<dots> = Q * ?L"
    using up by (simp only: unat_ElementsPerToken [OF L] T) simp
  finally show ?thesis using lo by simp
qed

lemma Add_Remove_Contains_no_wrap:
  fixes s :: "'w::len BitSet" and e :: "'e::len word"
  assumes L: "LENGTH('w) < 2 ^ 32" and ok: "word_count_ok s" and al: "allocated s"
    and nw: "unat (MaxElements s) + LENGTH('w) \<le> 2 ^ 32"
    and v: "unat e < unat (MaxElements s)"
  shows "\<exists>s'. Add s e = Inr s' \<and> Contains s' e = Inr True \<and>
           (\<exists>s''. Remove s' e = Inr s'' \<and> Contains s'' e = Inr False)"
proof -
  have a1: "unat e < unat (Tokens s * ElementsPerToken TYPE('w))"
    using first_assertion_no_wrap [OF L ok nw] v by simp
  obtain s' where s': "Add s e = Inr s'"
    using Add_succeeds [OF a1 v] ..
  have al': "allocated s'"
    using al Add_fields [OF s'] by (simp add: allocated_def)
  obtain s'' where s'': "Remove s' e = Inr s''"
    using Remove_succeeds [of e s'] a1 v Add_fields [OF s'] by auto
  show ?thesis
    using s' s'' Add_then_Contains [OF al s'] Remove_then_Contains [OF al' s''] by simp
qed


lemma operator_assign_duplicates:
  fixes s rh :: "'w::len BitSet"
  assumes al: "allocated s" and ar: "allocated rh"
    and c: "Tokens rh \<noteq> Tokens s \<or> universe_compatible s rh"
  shows "\<exists>s'. operator_assign s rh mem = Inr s' \<and> universe_compatible s' rh \<and> allocated s' \<and>
           take (unat (Tokens rh)) (TokenArray s') = take (unat (Tokens rh)) (TokenArray rh)"
proof (cases "Tokens rh \<noteq> Tokens s")
  case True
  have n: "unat (Tokens rh) \<le> length (TokenArray rh)"
    using ar by (simp add: allocated_def)
  show ?thesis
    using True n ReqSize_ge [of "Tokens rh"]
    by (simp add: operator_assign_def CopyFrom_def universe_compatible_def allocated_def
        memcpy_def realloc_def)
next
  case False
  then have u: "universe_compatible s rh" using c by simp
  have n: "unat (Tokens rh) \<le> length (TokenArray rh)" "unat (Tokens rh) \<le> length (TokenArray s)"
    using ar al u by (simp_all add: allocated_def universe_compatible_def)
  show ?thesis
    using False u n
    by (simp add: operator_assign_def CopyFrom_def universe_compatible_def allocated_def
        memcpy_def)
qed

section \<open>Union and intersection\<close>

lemma UnionWith_result:
  assumes "Tokens c = Tokens s"
  shows "UnionWith s c = Inr (s\<lparr>TokenArray :=
           map (\<lambda>i. if i < unat (Tokens s) then TokenArray s ! i OR TokenArray c ! i
                      else TokenArray s ! i) [0..<length (TokenArray s)]\<rparr>)"
  using assms by (simp add: UnionWith_def OrVector_eq)

lemma IntersectWith_result:
  assumes "Tokens c = Tokens s"
  shows "IntersectWith s c = Inr (s\<lparr>TokenArray :=
           map (\<lambda>i. if i < unat (Tokens s) then TokenArray s ! i AND TokenArray c ! i
                      else TokenArray s ! i) [0..<length (TokenArray s)]\<rparr>)"
  using assms by (simp add: IntersectWith_def AndVector_eq)


lemma UnionWith_ex:
  fixes s c :: "'w::len BitSet"
  assumes "allocated s" "Tokens c = Tokens s"
  obtains s' where "UnionWith s c = Inr s'" "Tokens s' = Tokens s"
    "MaxElements s' = MaxElements s" "allocated s'"
    "\<And>i. i < unat (Tokens s) \<Longrightarrow> TokenArray s' ! i = TokenArray s ! i OR TokenArray c ! i"
proof -
  let ?s' = "s\<lparr>TokenArray :=
           map (\<lambda>i. if i < unat (Tokens s) then TokenArray s ! i OR TokenArray c ! i
                      else TokenArray s ! i) [0..<length (TokenArray s)]\<rparr>"
  have "UnionWith s c = Inr ?s'"
    using assms(2) by (rule UnionWith_result)
  moreover have "allocated ?s'" "Tokens ?s' = Tokens s" "MaxElements ?s' = MaxElements s"
    using assms(1) by (simp_all add: allocated_def)
  moreover have "TokenArray ?s' ! i = TokenArray s ! i OR TokenArray c ! i"
    if "i < unat (Tokens s)" for i
    using that assms(1) by (simp add: allocated_def)
  ultimately show ?thesis using that by blast
qed

lemma IntersectWith_ex:
  fixes s c :: "'w::len BitSet"
  assumes "allocated s" "Tokens c = Tokens s"
  obtains s' where "IntersectWith s c = Inr s'" "Tokens s' = Tokens s"
    "MaxElements s' = MaxElements s" "allocated s'"
    "\<And>i. i < unat (Tokens s) \<Longrightarrow> TokenArray s' ! i = TokenArray s ! i AND TokenArray c ! i"
proof -
  let ?s' = "s\<lparr>TokenArray :=
           map (\<lambda>i. if i < unat (Tokens s) then TokenArray s ! i AND TokenArray c ! i
                      else TokenArray s ! i) [0..<length (TokenArray s)]\<rparr>"
  have "IntersectWith s c = Inr ?s'"
    using assms(2) by (rule IntersectWith_result)
  moreover have "allocated ?s'" "Tokens ?s' = Tokens s" "MaxElements ?s' = MaxElements s"
    using assms(1) by (simp_all add: allocated_def)
  moreover have "TokenArray ?s' ! i = TokenArray s ! i AND TokenArray c ! i"
    if "i < unat (Tokens s)" for i
    using that assms(1) by (simp add: allocated_def)
  ultimately show ?thesis using that by blast
qed

lemma UnionWith_commutes:
  fixes A B :: "'w::len BitSet"
  assumes "allocated A" "allocated B" "universe_compatible A B"
  shows "\<exists>ab ba. UnionWith A B = Inr ab \<and> UnionWith B A = Inr ba \<and>
                  Contains ab e = Contains ba e"
proof -
  have t: "Tokens B = Tokens A" "MaxElements B = MaxElements A"
    using assms(3) by (simp_all add: universe_compatible_def)
  obtain ab where ab: "UnionWith A B = Inr ab" "Tokens ab = Tokens A"
    "MaxElements ab = MaxElements A"
    "\<And>i. i < unat (Tokens A) \<Longrightarrow> TokenArray ab ! i = TokenArray A ! i OR TokenArray B ! i"
    using UnionWith_ex [OF assms(1) t(1)] by metis
  obtain ba where ba: "UnionWith B A = Inr ba" "Tokens ba = Tokens B"
    "MaxElements ba = MaxElements B"
    "\<And>i. i < unat (Tokens B) \<Longrightarrow> TokenArray ba ! i = TokenArray B ! i OR TokenArray A ! i"
    using UnionWith_ex [OF assms(2) t(1) [symmetric]] by metis
  have "Contains ab e = Contains ba e"
    by (rule Contains_cong) (simp_all add: ab ba t or.commute)
  then show ?thesis using ab(1) ba(1) by simp
qed


lemma UnionWith_associates:
  fixes A B C :: "'w::len BitSet"
  assumes "allocated A" "allocated B" "universe_compatible A B" "universe_compatible B C"
  shows "\<exists>ab ab_c bc a_bc. UnionWith A B = Inr ab \<and> UnionWith ab C = Inr ab_c \<and>
           UnionWith B C = Inr bc \<and> UnionWith A bc = Inr a_bc \<and>
           Contains ab_c e = Contains a_bc e"
proof -
  have t: "Tokens B = Tokens A" "Tokens C = Tokens B"
    using assms(3,4) by (simp_all add: universe_compatible_def)
  obtain ab where ab: "UnionWith A B = Inr ab" "Tokens ab = Tokens A"
    "MaxElements ab = MaxElements A" "allocated ab"
    "\<And>i. i < unat (Tokens A) \<Longrightarrow> TokenArray ab ! i = TokenArray A ! i OR TokenArray B ! i"
    using UnionWith_ex [OF assms(1) t(1)] by metis
  have "Tokens C = Tokens ab" using t ab(2) by simp
  from UnionWith_ex [OF ab(4) this]
  obtain ab_c where ab_c: "UnionWith ab C = Inr ab_c" "Tokens ab_c = Tokens ab"
    "MaxElements ab_c = MaxElements ab"
    "\<And>i. i < unat (Tokens ab) \<Longrightarrow> TokenArray ab_c ! i = TokenArray ab ! i OR TokenArray C ! i"
    by metis
  obtain bc where bc: "UnionWith B C = Inr bc" "Tokens bc = Tokens B"
    "\<And>i. i < unat (Tokens B) \<Longrightarrow> TokenArray bc ! i = TokenArray B ! i OR TokenArray C ! i"
    using UnionWith_ex [OF assms(2) t(2)] by metis
  have "Tokens bc = Tokens A" using t bc(2) by simp
  from UnionWith_ex [OF assms(1) this]
  obtain a_bc where a_bc: "UnionWith A bc = Inr a_bc" "Tokens a_bc = Tokens A"
    "MaxElements a_bc = MaxElements A"
    "\<And>i. i < unat (Tokens A) \<Longrightarrow> TokenArray a_bc ! i = TokenArray A ! i OR TokenArray bc ! i"
    by metis
  have "Contains ab_c e = Contains a_bc e"
    by (rule Contains_cong) (simp_all add: ab ab_c bc a_bc t or.assoc)
  then show ?thesis using ab(1) ab_c(1) bc(1) a_bc(1) by simp
qed

lemma UnionWith_idempotent:
  fixes A :: "'w::len BitSet"
  assumes "allocated A"
  shows "\<exists>aa. UnionWith A A = Inr aa \<and> Contains aa e = Contains A e"
proof -
  obtain aa where aa: "UnionWith A A = Inr aa" "Tokens aa = Tokens A"
    "MaxElements aa = MaxElements A"
    "\<And>i. i < unat (Tokens A) \<Longrightarrow> TokenArray aa ! i = TokenArray A ! i OR TokenArray A ! i"
    using UnionWith_ex [OF assms refl] by metis
  have "Contains aa e = Contains A e"
    by (rule Contains_cong) (simp_all add: aa)
  then show ?thesis using aa(1) by simp
qed

lemma IntersectWith_commutes:
  fixes A B :: "'w::len BitSet"
  assumes "allocated A" "allocated B" "universe_compatible A B"
  shows "\<exists>ab ba. IntersectWith A B = Inr ab \<and> IntersectWith B A = Inr ba \<and>
                  Contains ab e = Contains ba e"
proof -
  have t: "Tokens B = Tokens A" "MaxElements B = MaxElements A"
    using assms(3) by (simp_all add: universe_compatible_def)
  obtain ab where ab: "IntersectWith A B = Inr ab" "Tokens ab = Tokens A"
    "MaxElements ab = MaxElements A"
    "\<And>i. i < unat (Tokens A) \<Longrightarrow> TokenArray ab ! i = TokenArray A ! i AND TokenArray B ! i"
    using IntersectWith_ex [OF assms(1) t(1)] by metis
  obtain ba where ba: "IntersectWith B A = Inr ba" "Tokens ba = Tokens B"
    "MaxElements ba = MaxElements B"
    "\<And>i. i < unat (Tokens B) \<Longrightarrow> TokenArray ba ! i = TokenArray B ! i AND TokenArray A ! i"
    using IntersectWith_ex [OF assms(2) t(1) [symmetric]] by metis
  have "Contains ab e = Contains ba e"
    by (rule Contains_cong) (simp_all add: ab ba t and.commute)
  then show ?thesis using ab(1) ba(1) by simp
qed


lemma IntersectWith_associates:
  fixes A B C :: "'w::len BitSet"
  assumes "allocated A" "allocated B" "universe_compatible A B" "universe_compatible B C"
  shows "\<exists>ab ab_c bc a_bc. IntersectWith A B = Inr ab \<and> IntersectWith ab C = Inr ab_c \<and>
           IntersectWith B C = Inr bc \<and> IntersectWith A bc = Inr a_bc \<and>
           Contains ab_c e = Contains a_bc e"
proof -
  have t: "Tokens B = Tokens A" "Tokens C = Tokens B"
    using assms(3,4) by (simp_all add: universe_compatible_def)
  obtain ab where ab: "IntersectWith A B = Inr ab" "Tokens ab = Tokens A"
    "MaxElements ab = MaxElements A" "allocated ab"
    "\<And>i. i < unat (Tokens A) \<Longrightarrow> TokenArray ab ! i = TokenArray A ! i AND TokenArray B ! i"
    using IntersectWith_ex [OF assms(1) t(1)] by metis
  have "Tokens C = Tokens ab" using t ab(2) by simp
  from IntersectWith_ex [OF ab(4) this]
  obtain ab_c where ab_c: "IntersectWith ab C = Inr ab_c" "Tokens ab_c = Tokens ab"
    "MaxElements ab_c = MaxElements ab"
    "\<And>i. i < unat (Tokens ab) \<Longrightarrow> TokenArray ab_c ! i = TokenArray ab ! i AND TokenArray C ! i"
    by metis
  obtain bc where bc: "IntersectWith B C = Inr bc" "Tokens bc = Tokens B"
    "\<And>i. i < unat (Tokens B) \<Longrightarrow> TokenArray bc ! i = TokenArray B ! i AND TokenArray C ! i"
    using IntersectWith_ex [OF assms(2) t(2)] by metis
  have "Tokens bc = Tokens A" using t bc(2) by simp
  from IntersectWith_ex [OF assms(1) this]
  obtain a_bc where a_bc: "IntersectWith A bc = Inr a_bc" "Tokens a_bc = Tokens A"
    "MaxElements a_bc = MaxElements A"
    "\<And>i. i < unat (Tokens A) \<Longrightarrow> TokenArray a_bc ! i = TokenArray A ! i AND TokenArray bc ! i"
    by metis
  have "Contains ab_c e = Contains a_bc e"
    by (rule Contains_cong) (simp_all add: ab ab_c bc a_bc t and.assoc)
  then show ?thesis using ab(1) ab_c(1) bc(1) a_bc(1) by simp
qed

lemma IntersectWith_idempotent:
  fixes A :: "'w::len BitSet"
  assumes "allocated A"
  shows "\<exists>aa. IntersectWith A A = Inr aa \<and> Contains aa e = Contains A e"
proof -
  obtain aa where aa: "IntersectWith A A = Inr aa" "Tokens aa = Tokens A"
    "MaxElements aa = MaxElements A"
    "\<And>i. i < unat (Tokens A) \<Longrightarrow> TokenArray aa ! i = TokenArray A ! i AND TokenArray A ! i"
    using IntersectWith_ex [OF assms refl] by metis
  have "Contains aa e = Contains A e"
    by (rule Contains_cong) (simp_all add: aa)
  then show ?thesis using aa(1) by simp
qed

text \<open>
  C5: for universe-compatible instances in use and every valid element \<open>e\<close>, \<open>UnionWith\<close>
  returns, and \<open>Contains e\<close> gives the same result on \<open>A.UnionWith(B)\<close> and
  \<open>B.UnionWith(A)\<close> (commutative), on \<open>(A.UnionWith(B)).UnionWith(C)\<close> and
  \<open>A.UnionWith(B.UnionWith(C))\<close> (associative), and on \<open>A.UnionWith(A)\<close> and \<open>A\<close>
  (idempotent); the same for \<open>IntersectWith\<close>.
\<close>

theorem UnionWith_IntersectWith_algebra:
  fixes A B C :: "'w::len BitSet" and e :: "'e::len word"
  assumes "allocated A" and "allocated B" and "allocated C"
    and "universe_compatible A B" and "universe_compatible B C"
    and "unat e < unat (MaxElements A)"
  shows
    "(\<exists>ab ba. UnionWith A B = Inr ab \<and> UnionWith B A = Inr ba \<and>
        Contains ab e = Contains ba e) \<and>
     (\<exists>ab ab_c bc a_bc. UnionWith A B = Inr ab \<and> UnionWith ab C = Inr ab_c \<and>
        UnionWith B C = Inr bc \<and> UnionWith A bc = Inr a_bc \<and>
        Contains ab_c e = Contains a_bc e) \<and>
     (\<exists>aa. UnionWith A A = Inr aa \<and> Contains aa e = Contains A e) \<and>
     (\<exists>ab ba. IntersectWith A B = Inr ab \<and> IntersectWith B A = Inr ba \<and>
        Contains ab e = Contains ba e) \<and>
     (\<exists>ab ab_c bc a_bc. IntersectWith A B = Inr ab \<and> IntersectWith ab C = Inr ab_c \<and>
        IntersectWith B C = Inr bc \<and> IntersectWith A bc = Inr a_bc \<and>
        Contains ab_c e = Contains a_bc e) \<and>
     (\<exists>aa. IntersectWith A A = Inr aa \<and> Contains aa e = Contains A e)"
  using assms
  by (intro conjI UnionWith_commutes UnionWith_associates UnionWith_idempotent
      IntersectWith_commutes IntersectWith_associates IntersectWith_idempotent)


lemma scenario10:
  "bindE (Add (BitSet_ctor 10 junk) (1 :: 32 word)) (\<lambda>s.
     bindE (Add s (2 :: 32 word)) (\<lambda>s. Add s (3 :: 32 word))) = Inr exampleA"
  "bindE (Add (BitSet_ctor 10 junk) (3 :: 32 word)) (\<lambda>s.
     bindE (Add s (4 :: 32 word)) (\<lambda>s. Add s (5 :: 32 word))) = Inr exampleB"
  "bindE (Add (BitSet_ctor 10 junk) (5 :: 32 word)) (\<lambda>s. Add s (9 :: 32 word)) = Inr exampleC"
  "bindE (IntersectWith exampleA exampleB) (\<lambda>s. Inr (snd (ForEachMember s visit_all [])))
     = Inr [3 :: 32 word]"
  "bindE (UnionWith exampleA exampleB) (\<lambda>s. Inr (snd (ForEachMember s visit_all [])))
     = Inr [1, 2, 3, 4, 5 :: 32 word]"
  by code_simp+

theorem UnionWith_IntersectWith_algebra_witness:
  "allocated exampleA \<and> allocated exampleB \<and> allocated exampleC \<and>
   universe_compatible exampleA exampleB \<and> universe_compatible exampleB exampleC \<and>
   unat (3 :: 32 word) < unat (MaxElements exampleA) \<and>
   (\<exists>ab ba. UnionWith exampleA exampleB = Inr ab \<and> UnionWith exampleB exampleA = Inr ba \<and>
      Contains ab (3 :: 32 word) = Contains ba (3 :: 32 word)) \<and>
   (\<exists>ab ab_c bc a_bc. IntersectWith exampleA exampleB = Inr ab \<and>
      IntersectWith ab exampleC = Inr ab_c \<and> IntersectWith exampleB exampleC = Inr bc \<and>
      IntersectWith exampleA bc = Inr a_bc \<and>
      Contains ab_c (3 :: 32 word) = Contains a_bc (3 :: 32 word)) \<and>
   bindE (UnionWith exampleA exampleB) (\<lambda>s. Contains s (3 :: 32 word)) = Inr True \<and>
   bindE (UnionWith exampleA exampleB) (\<lambda>s. Contains s (6 :: 32 word)) = Inr False \<and>
   bindE (IntersectWith exampleA exampleB) (\<lambda>s. Contains s (2 :: 32 word)) = Inr False"
proof -
  have h: "allocated exampleA" "allocated exampleB" "allocated exampleC"
    "universe_compatible exampleA exampleB" "universe_compatible exampleB exampleC"
    "unat (3 :: 32 word) < unat (MaxElements exampleA)"
    by (simp_all add: allocated_def universe_compatible_def exampleA_def exampleB_def
        exampleC_def)
  have v: "bindE (UnionWith exampleA exampleB) (\<lambda>s. Contains s (3 :: 32 word)) = Inr True"
    "bindE (UnionWith exampleA exampleB) (\<lambda>s. Contains s (6 :: 32 word)) = Inr False"
    "bindE (IntersectWith exampleA exampleB) (\<lambda>s. Contains s (2 :: 32 word)) = Inr False"
    by code_simp+
  show ?thesis
    using UnionWith_IntersectWith_algebra [OF h] h v
    by simp
qed

end
